theory Spec2Isabelle
  imports Main "HOL-Library.Sublist"
begin

section \<open>JavaScript values\<close>

text \<open>
  The node (\<^verbatim>\<open>src/NmapExecutor.node.ts\<close>) works on untyped JavaScript data: the objects that
  \<^verbatim>\<open>runNmap\<close> resolves or rejects with, the document tree that xml2js builds, the summary
  and the history record. They are values of one datatype. A string is the list of the
  bytes of its UTF-8 encoding; a number is an integer (the only number the code computes
  is an array length); an object is the list of its properties in insertion order,
  without repeated keys.
\<close>

datatype jsval =
    JUndefined
  | JNull
  | JBool bool
  | JNum int
  | JStr string
  | JArr "jsval list"
  | JObj "(string \<times> jsval) list"

type_synonym obj = "(string \<times> jsval) list"

text \<open>Reading a property of an object: \<^verbatim>\<open>undefined\<close> when the object has no such key.\<close>

definition get :: "obj \<Rightarrow> string \<Rightarrow> jsval" where
  "get ob k = (case map_of ob k of None \<Rightarrow> JUndefined | Some v \<Rightarrow> v)"

text \<open>
  Writing a property (\<^verbatim>\<open>o.k = v\<close>, and each property copied by a spread): an existing key
  keeps its place and takes the new value, a new key goes last. (No key of this program
  is an array index, which JavaScript would list before the others.)
\<close>

fun set_prop :: "obj \<Rightarrow> string \<Rightarrow> jsval \<Rightarrow> obj" where
  "set_prop [] k v = [(k, v)]"
| "set_prop ((k', v') # kvs) k v =
     (if k' = k then (k, v) # kvs else (k', v') # set_prop kvs k v)"

text \<open>\<^verbatim>\<open>{...a, ...b}\<close> is \<open>assign (assign [] a) b\<close>.\<close>

definition assign :: "obj \<Rightarrow> obj \<Rightarrow> obj" where
  "assign tgt src = fold (\<lambda>(k, v) acc. set_prop acc k v) src tgt"

text \<open>What \<^verbatim>\<open>if (v)\<close>, \<^verbatim>\<open>!v\<close>, \<^verbatim>\<open>a && b\<close> and \<^verbatim>\<open>a || b\<close> test.\<close>

fun truthy :: "jsval \<Rightarrow> bool" where
  "truthy JUndefined = False"
| "truthy JNull = False"
| "truthy (JBool b) = b"
| "truthy (JNum n) = (n \<noteq> 0)"
| "truthy (JStr s) = (s \<noteq> [])"
| "truthy (JArr xs) = True"
| "truthy (JObj kvs) = True"

fun nullish :: "jsval \<Rightarrow> bool" where
  "nullish JUndefined = True"
| "nullish JNull = True"
| "nullish v = False"

text \<open>\<^verbatim>\<open>a || d\<close>\<close>

definition or_else :: "jsval \<Rightarrow> jsval \<Rightarrow> jsval" where
  "or_else a d = (if truthy a then a else d)"

section \<open>Strings\<close>

text \<open>\<^verbatim>\<open>s.includes(pat)\<close>: \<open>pat\<close> occurs in \<open>s\<close> as a contiguous run.\<close>

fun str_includes :: "string \<Rightarrow> string \<Rightarrow> bool" where
  "str_includes [] pat = (pat = [])"
| "str_includes (c # cs) pat = (prefix pat (c # cs) \<or> str_includes cs pat)"

text \<open>\<^verbatim>\<open>xs.join(sep)\<close> on an array of strings.\<close>

fun join :: "string \<Rightarrow> string list \<Rightarrow> string" where
  "join sep [] = []"
| "join sep [x] = x"
| "join sep (x # y # ys) = x @ sep @ join sep (y # ys)"

text \<open>
  The regular expression \<^verbatim>\<open>/host.*down/i\<close>. Under the flag \<^verbatim>\<open>i\<close> an ASCII letter of the
  pattern matches that letter in either case and nothing else. The dot matches any
  character but a line terminator: line feed, carriage return, U+2028 and U+2029 (in
  UTF-8 the bytes E2 80 A8 and E2 80 A9).
\<close>

definition ci_eq :: "char \<Rightarrow> char \<Rightarrow> bool" where
  "ci_eq a c =
     (c = a \<or> (let m = (of_char a :: nat) in 97 \<le> m \<and> m \<le> 122 \<and> of_char c + 32 = m))"

text \<open>The letters \<open>pat\<close> (in lower case) match at the start of the string.\<close>

fun ci_prefix :: "string \<Rightarrow> string \<Rightarrow> bool" where
  "ci_prefix [] s = True"
| "ci_prefix (a # as) [] = False"
| "ci_prefix (a # as) (c # cs) = (ci_eq a c \<and> ci_prefix as cs)"

fun line_terminator_at :: "string \<Rightarrow> bool" where
  "line_terminator_at [] = False"
| "line_terminator_at (c # cs) =
     (c = CHR 0x0A \<or> c = CHR 0x0D \<or>
      (c = CHR 0xE2 \<and> (prefix [CHR 0x80, CHR 0xA8] cs \<or> prefix [CHR 0x80, CHR 0xA9] cs)))"

text \<open>\<^verbatim>\<open>.*down\<close> matches at the start of the string.\<close>

fun dot_star_down :: "string \<Rightarrow> bool" where
  "dot_star_down [] = False"
| "dot_star_down (c # cs) =
     (ci_prefix ''down'' (c # cs) \<or> (\<not> line_terminator_at (c # cs) \<and> dot_star_down cs))"

text \<open>\<^verbatim>\<open>s.match(/host.*down/i)\<close> is not null.\<close>

fun host_down_match :: "string \<Rightarrow> bool" where
  "host_down_match [] = False"
| "host_down_match (c # cs) =
     ((ci_prefix ''host'' (c # cs) \<and> dot_star_down (drop 4 (c # cs))) \<or> host_down_match cs)"

section \<open>Flag Deriver and Command Builder\<close>

text \<open>
  The node parameters of one input item, as \<^verbatim>\<open>getNodeParameter(name, i)\<close> returns them.
  \<open>flagsParam\<close> is the parameter named \<^verbatim>\<open>flags\<close> (the source's variable \<^verbatim>\<open>flags\<close> is the
  derived flag string). The parameter \<^verbatim>\<open>timeout\<close> is passed on to \<^verbatim>\<open>exec\<close> and read
  nowhere else: what the node makes of it is the section on the timeout, and what it does
  to a scan that was started is part of what \<open>exec\<close> below answers.
\<close>

record item_params =
  target :: string
  scanMode :: string
  smartResult :: bool
  saveHistory :: bool
  outputFormat :: string
  nmapPath :: string
  flagsParam :: string
  nseScripts :: "string list"

text \<open>Lines 146 to 155.\<close>

definition derive_flags :: "string \<Rightarrow> string \<Rightarrow> string list \<Rightarrow> string" where
  "derive_flags mode custom scripts =
     (if mode = ''fast'' then ''-T4 -F''
      else if mode = ''full'' then ''-T4 -p1-65535''
      else if mode = ''version'' then ''-sV''
      else if mode = ''os'' then ''-O''
      else if mode = ''custom'' then custom
      else if mode = ''nse'' then
        (if length scripts \<noteq> 0 then ''--script '' @ join '','' scripts else '''')
      else '''')"

text \<open>Lines 157 to 159.\<close>

definition format_flag :: "string \<Rightarrow> string" where
  "format_flag fmt =
     (if fmt = ''xml'' then ''-oX -'' else if fmt = ''grep'' then ''-oG -'' else '''')"

text \<open>
  The template of lines 163 and 207:
  \<^verbatim>\<open>"${nmapPath}" ${flags} ${formatFlag} "${target}"\<close>.
\<close>

definition command_line :: "string \<Rightarrow> string \<Rightarrow> string \<Rightarrow> string \<Rightarrow> string" where
  "command_line path fl ff tgt =
     [CHR 0x22] @ path @ [CHR 0x22] @ '' '' @ fl @ '' '' @ ff @ '' '' @
     [CHR 0x22] @ tgt @ [CHR 0x22]"

text \<open>\<^verbatim>\<open>getNodeParameter('nmapPath', i) as string || 'nmap'\<close>\<close>

definition binary_path :: "item_params \<Rightarrow> string" where
  "binary_path p = (if nmapPath p \<noteq> [] then nmapPath p else ''nmap'')"

section \<open>Process Runner\<close>

text \<open>
  What \<^verbatim>\<open>child_process.exec\<close> hands to its callback: the message of the error (when there
  is one), and the captured standard output and standard error. Every failure of a scan
  (a status other than 0, a timeout, a binary that cannot be started) arrives this way; a
  call of \<^verbatim>\<open>exec\<close> that throws before it starts anything (as it does when it refuses its
  timeout option, see the section on the timeout) is outside the model of the runner.
\<close>

datatype exec_result =
  ExecResult (exec_error: "string option") (exec_stdout: string) (exec_stderr: string)

text \<open>
  The world outside the node. \<open>exec\<close> answers a command, given the commands run before
  it; \<open>parseStringPromise\<close> is xml2js with \<^verbatim>\<open>explicitArray: false\<close>, giving the document
  tree or the text \<^verbatim>\<open>String(e)\<close> of the error it rejects with; \<open>appendFileSync\<close> gives the
  message of the error it throws, if it throws, given the lines written before;
  \<open>toISOString\<close> is the clock reading while item \<open>i\<close> is processed.
\<close>

record env =
  exec :: "string list \<Rightarrow> string \<Rightarrow> exec_result"
  parseStringPromise :: "string \<Rightarrow> string + jsval"
  appendFileSync :: "string list \<Rightarrow> string \<Rightarrow> string option"
  toISOString :: "nat \<Rightarrow> string"

text \<open>
  What the node has done to the world: the commands it ran, in order, and the lines it
  appended to \<^verbatim>\<open>nmap-history.jsonl\<close>.
\<close>

record world =
  commands :: "string list"
  history :: "string list"

text \<open>The object of lines 170 to 177, which the promise rejects with.\<close>

definition rejected :: "string \<Rightarrow> string \<Rightarrow> string \<Rightarrow> string \<Rightarrow> obj" where
  "rejected cmdToRun msg out serr =
     [(''error'', JBool True),
      (''message'', JStr ''Nmap execution failed''),
      (''details'', JStr (if serr \<noteq> [] then serr else msg)),
      (''cmd'', JStr cmdToRun),
      (''stdout'', JStr out),
      (''stderr'', JStr serr)]"

text \<open>
  The object of lines 179 to 186, which the promise resolves with. \<open>fl\<close> is the variable
  \<^verbatim>\<open>flags\<close> of the enclosing scope.
\<close>

definition resolved :: "item_params \<Rightarrow> string \<Rightarrow> string \<Rightarrow> string \<Rightarrow> obj" where
  "resolved p fl cmdToRun out =
     [(''error'', JBool False),
      (''target'', JStr (target p)),
      (''cmd'', JStr cmdToRun),
      (''output'', JStr out),
      (''format'', JStr (outputFormat p)),
      (''flags'', JStr fl)]"

text \<open>
  \<^verbatim>\<open>runNmap\<close>, lines 166 to 190: \<open>Inl\<close> is a rejection, \<open>Inr\<close> a resolution; the command is
  added to those the world has seen.
\<close>

definition runNmap ::
  "env \<Rightarrow> item_params \<Rightarrow> string \<Rightarrow> world \<Rightarrow> string \<Rightarrow> (obj + obj) \<times> world" where
  "runNmap e p fl w cmdToRun =
     (case exec e (commands w) cmdToRun of
        ExecResult err out serr \<Rightarrow>
          ((case err of
              Some msg \<Rightarrow> Inl (rejected cmdToRun msg out serr)
            | None \<Rightarrow> Inr (resolved p fl cmdToRun out)),
           w\<lparr>commands := commands w @ [cmdToRun]\<rparr>))"

section \<open>Timeout\<close>










section \<open>Resiliency Controller\<close>

text \<open>Lines 196 to 201, on the rejected object \<open>err\<close>.\<close>

definition downMsg :: "obj \<Rightarrow> bool" where
  "downMsg err =
     (case get err ''details'' of
        JStr d \<Rightarrow>
          d \<noteq> [] \<and>
          (str_includes d ''0 hosts up'' \<or> str_includes d ''Failed to resolve'' \<or>
           host_down_match d)
      | _ \<Rightarrow> False)"

definition resiliency_note :: "string \<Rightarrow> obj \<Rightarrow> jsval" where
  "resiliency_note msg err =
     JObj [(''triggered'', JBool True), (''msg'', JStr msg), (''firstError'', JObj err)]"

text \<open>
  \<open>flags_of p\<close> is the value of the variable \<^verbatim>\<open>flags\<close> for the item with parameters \<open>p\<close>.
  Lines 161 to 230: the first attempt and, on a failure classified as host down, the one
  retry. The result is \<^verbatim>\<open>scanResult\<close>. Every value \<^verbatim>\<open>runNmap\<close> rejects with is an object,
  so the tests \<^verbatim>\<open>typeof err === 'object'\<close> of lines 218 and 228 hold.
\<close>

definition flags_of :: "item_params \<Rightarrow> string" where
  "flags_of p = derive_flags (scanMode p) (flagsParam p) (nseScripts p)"

definition scan :: "env \<Rightarrow> item_params \<Rightarrow> world \<Rightarrow> obj \<times> world" where
  "scan e p w =
     (let fl = flags_of p;
          formatFlag = format_flag (outputFormat p);
          cmd = command_line (binary_path p) fl formatFlag (target p)
      in case runNmap e p fl w cmd of
           (Inr res, w1) \<Rightarrow> (res, w1)
         | (Inl err, w1) \<Rightarrow>
             if downMsg err \<and> \<not> str_includes fl ''-Pn'' then
               (let resilientFlags = fl @ '' -Pn'';
                    resilientCmd =
                      command_line (binary_path p) resilientFlags formatFlag (target p)
                in case runNmap e p fl w1 resilientCmd of
                     (Inr res, w2) \<Rightarrow>
                       (set_prop res ''resiliency''
                          (resiliency_note ''First scan failed, retried with -Pn.'' err), w2)
                   | (Inl err2, w2) \<Rightarrow>
                       (set_prop (assign [] err2) ''resiliency''
                          (resiliency_note ''Scan failed even after retrying with -Pn.'' err),
                        w2))
             else (err, w1))"

section \<open>Summary Extractor\<close>

text \<open>
  The exceptions of the program: the \<^verbatim>\<open>TypeError\<close> of reading a property of
  \<^verbatim>\<open>undefined\<close> or \<^verbatim>\<open>null\<close>, and the \<^verbatim>\<open>Error\<close> that \<^verbatim>\<open>fs.appendFileSync\<close> throws.
\<close>

datatype exn = TypeError string | Error string

text \<open>\<^verbatim>\<open>String(e)\<close>\<close>

fun string_of_exn :: "exn \<Rightarrow> string" where
  "string_of_exn (TypeError m) = ''TypeError: '' @ m"
| "string_of_exn (Error m) = ''Error: '' @ m"

definition bind :: "exn + 'a \<Rightarrow> ('a \<Rightarrow> exn + 'b) \<Rightarrow> exn + 'b" where
  "bind m f = (case m of Inl x \<Rightarrow> Inl x | Inr v \<Rightarrow> f v)"

text \<open>
  \<^verbatim>\<open>v.k\<close>, for the keys \<^verbatim>\<open>makeSummary\<close> reads (element and attribute names of the
  document, and \<^verbatim>\<open>$\<close>): none of them is a property that a string, an array, a number or
  a boolean has of its own, so on these the read gives \<^verbatim>\<open>undefined\<close>.
\<close>

fun read_prop :: "jsval \<Rightarrow> string \<Rightarrow> exn + jsval" where
  "read_prop JUndefined k =
     Inl (TypeError (''Cannot read properties of undefined (reading '' @ [CHR 0x27] @ k @ [CHR 0x27] @ '')''))"
| "read_prop JNull k =
     Inl (TypeError (''Cannot read properties of null (reading '' @ [CHR 0x27] @ k @ [CHR 0x27] @ '')''))"
| "read_prop (JObj kvs) k = Inr (get kvs k)"
| "read_prop v k = Inr JUndefined"

text \<open>\<^verbatim>\<open>x.$.a\<close>\<close>

definition attr :: "jsval \<Rightarrow> string \<Rightarrow> exn + jsval" where
  "attr x a = bind (read_prop x ''$'') (\<lambda>d. read_prop d a)"

text \<open>\<^verbatim>\<open>x.f?.$.a\<close>: a nullish \<^verbatim>\<open>x.f\<close> ends the whole chain with \<^verbatim>\<open>undefined\<close>.\<close>

definition opt_attr :: "jsval \<Rightarrow> string \<Rightarrow> string \<Rightarrow> exn + jsval" where
  "opt_attr x f a =
     bind (read_prop x f) (\<lambda>c. if nullish c then Inr JUndefined else attr c a)"

text \<open>\<^verbatim>\<open>p.state.$.state === 'open'\<close>, the callback of line 285.\<close>

definition is_open :: "jsval \<Rightarrow> exn + bool" where
  "is_open p =
     bind (read_prop p ''state'') (\<lambda>s. bind (attr s ''state'') (\<lambda>v. Inr (v = JStr ''open'')))"

text \<open>\<^verbatim>\<open>ports.filter(...)\<close>: the first callback that throws ends the filter.\<close>

fun filter_open :: "jsval list \<Rightarrow> exn + jsval list" where
  "filter_open [] = Inr []"
| "filter_open (p # ps) =
     bind (is_open p) (\<lambda>b. bind (filter_open ps) (\<lambda>r. Inr (if b then p # r else r)))"

text \<open>Lines 283 to 288.\<close>

definition open_ports :: "jsval \<Rightarrow> exn + jsval list" where
  "open_ports ports =
     (case ports of
        JArr ps \<Rightarrow> filter_open ps
      | _ \<Rightarrow>
          if truthy ports then
            bind (opt_attr ports ''state'' ''state'')
              (\<lambda>v. Inr (if v = JStr ''open'' then [ports] else []))
          else Inr [])"

text \<open>The callback of lines 289 to 295.\<close>

definition port_entry :: "jsval \<Rightarrow> exn + jsval" where
  "port_entry p =
     bind (attr p ''portid'') (\<lambda>pid.
     bind (opt_attr p ''service'' ''name'') (\<lambda>nm.
     bind (opt_attr p ''service'' ''product'') (\<lambda>pr.
     bind (opt_attr p ''service'' ''version'') (\<lambda>ve.
     bind (opt_attr p ''service'' ''extrainfo'') (\<lambda>ex.
       Inr (JObj [(''port'', pid),
                  (''service'', or_else nm (JStr '''')),
                  (''product'', or_else pr (JStr '''')),
                  (''version'', or_else ve (JStr '''')),
                  (''extra'', or_else ex (JStr ''''))]))))))"

text \<open>\<^verbatim>\<open>xs.map(f)\<close> and a \<^verbatim>\<open>for ... of\<close> loop that pushes, with a body that may throw.\<close>

fun map_exn :: "('a \<Rightarrow> exn + 'b) \<Rightarrow> 'a list \<Rightarrow> exn + 'b list" where
  "map_exn f [] = Inr []"
| "map_exn f (x # xs) = bind (f x) (\<lambda>y. bind (map_exn f xs) (\<lambda>ys. Inr (y # ys)))"

text \<open>The body of the inner loop, lines 302 to 306.\<close>

definition script_finding :: "jsval \<Rightarrow> jsval \<Rightarrow> exn + jsval" where
  "script_finding p s =
     bind (attr p ''portid'') (\<lambda>pid.
     bind (attr s ''id'') (\<lambda>sid.
     bind (attr s ''output'') (\<lambda>out.
       Inr (JObj [(''port'', pid), (''script'', sid), (''output'', out)]))))"

text \<open>The body of the outer loop, lines 299 to 308.\<close>

definition port_findings :: "jsval \<Rightarrow> exn + jsval list" where
  "port_findings p =
     bind (read_prop p ''script'') (\<lambda>sc.
       if truthy sc then
         map_exn (script_finding p) (case sc of JArr ss \<Rightarrow> ss | _ \<Rightarrow> [sc])
       else Inr [])"

definition nse_results :: "jsval list \<Rightarrow> exn + jsval list" where
  "nse_results openPorts = bind (map_exn port_findings openPorts) (\<lambda>fs. Inr (concat fs))"

text \<open>\<^verbatim>\<open>host.ports?.port\<close>, line 282.\<close>

definition host_ports :: "jsval \<Rightarrow> exn + jsval" where
  "host_ports host =
     bind (read_prop host ''ports'')
       (\<lambda>ps. if nullish ps then Inr JUndefined else read_prop ps ''port'')"

text \<open>The \<^verbatim>\<open>try\<close> block of \<^verbatim>\<open>makeSummary\<close>, lines 279 to 317.\<close>

definition summary_body :: "jsval \<Rightarrow> exn + jsval" where
  "summary_body parsed =
     bind (read_prop parsed ''nmaprun'') (\<lambda>run.
     bind (read_prop run ''host'') (\<lambda>host.
     bind (opt_attr host ''status'' ''state'') (\<lambda>st.
     bind (opt_attr host ''address'' ''addr'') (\<lambda>ad.
     bind (host_ports host) (\<lambda>ports.
     bind (open_ports ports) (\<lambda>openPorts.
     bind (map_exn port_entry openPorts) (\<lambda>portList.
     bind (nse_results openPorts) (\<lambda>nseResults.
       Inr (JObj [(''address'', or_else ad (JStr ''unknown'')),
                  (''status'', or_else st (JStr ''unknown'')),
                  (''openPorts'', JArr portList),
                  (''totalOpen'', JNum (int (length openPorts))),
                  (''vulns'', JArr nseResults)])))))))))"

definition error_marker :: "string \<Rightarrow> jsval" where
  "error_marker details = JObj [(''error'', JBool True), (''details'', JStr details)]"

text \<open>\<^verbatim>\<open>makeSummary\<close>, lines 277 to 321.\<close>

definition makeSummary :: "jsval \<Rightarrow> jsval" where
  "makeSummary parsed =
     (case summary_body parsed of
        Inr s \<Rightarrow> s
      | Inl x \<Rightarrow> error_marker (string_of_exn x))"

text \<open>Lines 232 to 247: the pair of \<^verbatim>\<open>parsed\<close> and \<^verbatim>\<open>summary\<close>.\<close>

definition summarize :: "env \<Rightarrow> item_params \<Rightarrow> obj \<Rightarrow> jsval \<times> jsval" where
  "summarize e p scanResult =
     (case get scanResult ''output'' of
        JStr out \<Rightarrow>
          if smartResult p \<and> \<not> truthy (get scanResult ''error'') \<and> outputFormat p = ''xml''
          then
            (case parseStringPromise e out of
               Inr tree \<Rightarrow> (tree, makeSummary tree)
             | Inl details \<Rightarrow> (JNull, error_marker details))
          else (JNull, JNull)
      | _ \<Rightarrow> (JNull, JNull))"

section \<open>History Recorder\<close>

text \<open>
  \<^verbatim>\<open>JSON.stringify\<close> on the values above. A string is quoted with the escapes of the
  language's \<^verbatim>\<open>QuoteJSONString\<close>; a property whose value is \<^verbatim>\<open>undefined\<close> is left out of
  its object, and \<^verbatim>\<open>undefined\<close> in an array is written \<^verbatim>\<open>null\<close>.
\<close>

definition hex_digit :: "nat \<Rightarrow> char" where
  "hex_digit n = ''0123456789abcdef'' ! (n mod 16)"

definition quote_char :: "char \<Rightarrow> string" where
  "quote_char c =
     (let n = (of_char c :: nat) in
      if n = 0x22 then [CHR 0x5C, CHR 0x22]
      else if n = 0x5C then [CHR 0x5C, CHR 0x5C]
      else if n = 8 then [CHR 0x5C, CHR ''b'']
      else if n = 9 then [CHR 0x5C, CHR ''t'']
      else if n = 10 then [CHR 0x5C, CHR ''n'']
      else if n = 12 then [CHR 0x5C, CHR ''f'']
      else if n = 13 then [CHR 0x5C, CHR ''r'']
      else if n < 32 then
        [CHR 0x5C, CHR ''u'', CHR ''0'', CHR ''0'', hex_digit (n div 16), hex_digit (n mod 16)]
      else [c])"

definition QuoteJSONString :: "string \<Rightarrow> string" where
  "QuoteJSONString s = [CHR 0x22] @ concat (map quote_char s) @ [CHR 0x22]"

fun decimal :: "nat \<Rightarrow> string" where
  "decimal n =
     (if n < 10 then [''0123456789'' ! n]
      else decimal (n div 10) @ [''0123456789'' ! (n mod 10)])"

declare decimal.simps [simp del]

definition number_text :: "int \<Rightarrow> string" where
  "number_text i = (if i < 0 then CHR ''-'' # decimal (nat (- i)) else decimal (nat i))"

fun json_text :: "jsval \<Rightarrow> string"
  and json_texts :: "jsval list \<Rightarrow> string list"
  and json_member_texts :: "(string \<times> jsval) list \<Rightarrow> string list" where
  "json_text JUndefined = ''null''"
| "json_text JNull = ''null''"
| "json_text (JBool b) = (if b then ''true'' else ''false'')"
| "json_text (JNum n) = number_text n"
| "json_text (JStr s) = QuoteJSONString s"
| "json_text (JArr xs) = ''['' @ join '','' (json_texts xs) @ '']''"
| "json_text (JObj kvs) = ''{'' @ join '','' (json_member_texts kvs) @ ''}''"
| "json_texts [] = []"
| "json_texts (x # xs) = json_text x # json_texts xs"
| "json_member_texts [] = []"
| "json_member_texts ((k, v) # kvs) =
     (if v = JUndefined then json_member_texts kvs
      else (QuoteJSONString k @ '':'' @ json_text v) # json_member_texts kvs)"

text \<open>\<^verbatim>\<open>JSON.stringify(o)\<close> for an object \<open>o\<close>.\<close>

definition JSON_stringify :: "obj \<Rightarrow> string" where
  "JSON_stringify ob = json_text (JObj ob)"

text \<open>\<^verbatim>\<open>historyObj\<close>, lines 251 to 259.\<close>

definition history_obj :: "string \<Rightarrow> item_params \<Rightarrow> jsval \<Rightarrow> obj \<Rightarrow> obj" where
  "history_obj timestamp p summary scanResult =
     assign
       (assign
          [(''timestamp'', JStr timestamp),
           (''target'', JStr (target p)),
           (''flags'', JStr (flags_of p)),
           (''format'', JStr (outputFormat p)),
           (''summary'', summary)]
          (if truthy (get scanResult ''error'') then [(''error'', JObj scanResult)] else []))
       (if truthy (get scanResult ''resiliency'')
        then [(''resiliency'', get scanResult ''resiliency'')] else [])"

text \<open>The object under \<^verbatim>\<open>json\<close> that is pushed to \<^verbatim>\<open>outputs\<close>, lines 264 to 268.\<close>

definition result_json :: "item_params \<Rightarrow> obj \<Rightarrow> jsval \<Rightarrow> jsval \<Rightarrow> obj" where
  "result_json p scanResult parsed summary =
     assign
       (assign (assign [] scanResult)
          (if smartResult p \<and> truthy parsed then [(''parsed'', parsed)] else []))
       (if smartResult p \<and> truthy summary then [(''summary'', summary)] else [])"

section \<open>The pipeline\<close>

text \<open>
  One turn of the loop of \<^verbatim>\<open>execute\<close>, lines 138 to 269, for item \<open>i\<close> with parameters \<open>p\<close>:
  \<open>Inr\<close> is the element pushed to \<^verbatim>\<open>outputs\<close>, \<open>Inl\<close> the exception that leaves the loop.
  The only statement outside a \<^verbatim>\<open>try\<close> that can throw is \<^verbatim>\<open>fs.appendFileSync\<close>.
\<close>

definition run_item :: "env \<Rightarrow> nat \<Rightarrow> item_params \<Rightarrow> world \<Rightarrow> (exn + jsval) \<times> world" where
  "run_item e i p w =
     (case scan e p w of
        (scanResult, w1) \<Rightarrow>
          (case summarize e p scanResult of
             (parsed, summary) \<Rightarrow>
               (let out = JObj [(''json'', JObj (result_json p scanResult parsed summary))]
                in if saveHistory p then
                     (let line =
                            JSON_stringify (history_obj (toISOString e i) p summary scanResult)
                            @ [CHR 0x0A]
                      in case appendFileSync e (history w1) line of
                           Some msg \<Rightarrow> (Inl (Error msg), w1)
                         | None \<Rightarrow> (Inr out, w1\<lparr>history := history w1 @ [line]\<rparr>))
                   else (Inr out, w1))))"

text \<open>
  The loop of \<^verbatim>\<open>execute\<close>, line 137, from item \<open>i\<close> on with \<open>outputs\<close> so far: \<open>Inr\<close> is
  the array the method returns, \<open>Inl\<close> the exception its promise rejects with.
\<close>

fun execute_from ::
  "env \<Rightarrow> nat \<Rightarrow> item_params list \<Rightarrow> world \<Rightarrow> jsval list \<Rightarrow> (exn + jsval list) \<times> world" where
  "execute_from e i [] w outputs = (Inr outputs, w)"
| "execute_from e i (p # ps) w outputs =
     (case run_item e i p w of
        (Inl x, w1) \<Rightarrow> (Inl x, w1)
      | (Inr out, w1) \<Rightarrow> execute_from e (Suc i) ps w1 (outputs @ [out]))"

definition execute :: "env \<Rightarrow> item_params list \<Rightarrow> world \<Rightarrow> (exn + jsval list) \<times> world" where
  "execute e items w = execute_from e 0 items w []"

section \<open>Reading the history back\<close>

text \<open>
  The history file is written for a reader that splits it into lines and gives each line
  to \<^verbatim>\<open>JSON.parse\<close>. This is the grammar of JSON (ECMA-404) as that function reads it:
  white space between tokens, the escapes of strings, objects whose repeated keys keep
  the last value. Two things are left out, and answered with \<open>None\<close> like a text that is
  not JSON: numbers with a fraction or an exponent, and \<^verbatim>\<open>\u\<close> escapes above U+007F.
  The first argument of \<open>parse_value\<close> bounds the depth of the recursion; \<open>JSON_parse\<close>
  gives it the length of the text, which no text exceeds.
\<close>

definition is_ws :: "char \<Rightarrow> bool" where
  "is_ws c = (c = CHR 0x20 \<or> c = CHR 0x09 \<or> c = CHR 0x0A \<or> c = CHR 0x0D)"

definition skip_ws :: "string \<Rightarrow> string" where
  "skip_ws s = dropWhile is_ws s"

definition is_digit :: "char \<Rightarrow> bool" where
  "is_digit c = (let n = (of_char c :: nat) in 48 \<le> n \<and> n \<le> 57)"

definition digit_val :: "char \<Rightarrow> nat" where
  "digit_val c = of_char c - 48"

definition hex_val :: "char \<Rightarrow> nat option" where
  "hex_val c =
     (let n = (of_char c :: nat) in
      if 48 \<le> n \<and> n \<le> 57 then Some (n - 48)
      else if 97 \<le> n \<and> n \<le> 102 then Some (n - 87)
      else if 65 \<le> n \<and> n \<le> 70 then Some (n - 55)
      else None)"

definition unescape :: "char \<Rightarrow> char option" where
  "unescape c =
     (if c = CHR 0x22 then Some (CHR 0x22)
      else if c = CHR 0x5C then Some (CHR 0x5C)
      else if c = CHR ''/'' then Some (CHR ''/'')
      else if c = CHR ''b'' then Some (CHR 0x08)
      else if c = CHR ''f'' then Some (CHR 0x0C)
      else if c = CHR ''n'' then Some (CHR 0x0A)
      else if c = CHR ''r'' then Some (CHR 0x0D)
      else if c = CHR ''t'' then Some (CHR 0x09)
      else None)"

definition unicode_escape :: "char \<Rightarrow> char \<Rightarrow> char \<Rightarrow> char \<Rightarrow> char option" where
  "unicode_escape a b c d =
     (case (hex_val a, hex_val b, hex_val c, hex_val d) of
        (Some x, Some y, Some z, Some u) \<Rightarrow>
          (let n = 4096 * x + 256 * y + 16 * z + u in
           if n < 128 then Some (char_of n) else None)
      | _ \<Rightarrow> None)"

fun parse_chars :: "string \<Rightarrow> (string \<times> string) option" where
  "parse_chars [] = None"
| "parse_chars (c # cs) =
     (if c = CHR 0x22 then Some ([], cs)
      else if c = CHR 0x5C then
        (case cs of
           [] \<Rightarrow> None
         | e # r \<Rightarrow>
             if e = CHR ''u'' then
               (case r of
                  a # b # c' # d # r' \<Rightarrow>
                    (case unicode_escape a b c' d of
                       None \<Rightarrow> None
                     | Some ch \<Rightarrow> map_option (\<lambda>(s, t). (ch # s, t)) (parse_chars r'))
                | _ \<Rightarrow> None)
             else
               (case unescape e of
                  None \<Rightarrow> None
                | Some ch \<Rightarrow> map_option (\<lambda>(s, t). (ch # s, t)) (parse_chars r)))
      else if (of_char c :: nat) < 32 then None
      else map_option (\<lambda>(s, t). (c # s, t)) (parse_chars cs))"

definition parse_number :: "string \<Rightarrow> (jsval \<times> string) option" where
  "parse_number s =
     (let neg = (s \<noteq> [] \<and> hd s = CHR ''-'');
          t = (if neg then tl s else s);
          ds = takeWhile is_digit t;
          r = dropWhile is_digit t
      in if ds = [] then None
         else if hd ds = CHR ''0'' \<and> 1 < length ds then None
         else if r \<noteq> [] \<and> (hd r = CHR ''.'' \<or> hd r = CHR ''e'' \<or> hd r = CHR ''E'') then None
         else Some (JNum ((if neg then - 1 else 1) *
                          int (foldl (\<lambda>a c. 10 * a + digit_val c) 0 ds)), r))"

fun parse_value :: "nat \<Rightarrow> string \<Rightarrow> (jsval \<times> string) option"
  and parse_elements :: "nat \<Rightarrow> string \<Rightarrow> (jsval list \<times> string) option"
  and parse_members :: "nat \<Rightarrow> obj \<Rightarrow> string \<Rightarrow> (obj \<times> string) option" where
  "parse_value 0 s = None"
| "parse_value (Suc n) s =
     (case skip_ws s of
        [] \<Rightarrow> None
      | c # cs \<Rightarrow>
          if c = CHR ''{'' then
            (case skip_ws cs of
               [] \<Rightarrow> None
             | d # ds \<Rightarrow>
                 if d = CHR ''}'' then Some (JObj [], ds)
                 else map_option (\<lambda>(ob, r). (JObj ob, r)) (parse_members n [] (d # ds)))
          else if c = CHR ''['' then
            (case skip_ws cs of
               [] \<Rightarrow> None
             | d # ds \<Rightarrow>
                 if d = CHR '']'' then Some (JArr [], ds)
                 else map_option (\<lambda>(xs, r). (JArr xs, r)) (parse_elements n (d # ds)))
          else if c = CHR 0x22 then map_option (\<lambda>(str, r). (JStr str, r)) (parse_chars cs)
          else if prefix ''null'' (c # cs) then Some (JNull, drop 4 (c # cs))
          else if prefix ''true'' (c # cs) then Some (JBool True, drop 4 (c # cs))
          else if prefix ''false'' (c # cs) then Some (JBool False, drop 5 (c # cs))
          else parse_number (c # cs))"
| "parse_elements 0 s = None"
| "parse_elements (Suc n) s =
     (case parse_value n s of
        None \<Rightarrow> None
      | Some (v, r) \<Rightarrow>
          (case skip_ws r of
             [] \<Rightarrow> None
           | c # cs \<Rightarrow>
               if c = CHR '','' then map_option (\<lambda>(vs, r'). (v # vs, r')) (parse_elements n cs)
               else if c = CHR '']'' then Some ([v], cs)
               else None))"
| "parse_members 0 acc s = None"
| "parse_members (Suc n) acc s =
     (case skip_ws s of
        [] \<Rightarrow> None
      | c # cs \<Rightarrow>
          if c = CHR 0x22 then
            (case parse_chars cs of
               None \<Rightarrow> None
             | Some (k, r) \<Rightarrow>
                 (case skip_ws r of
                    [] \<Rightarrow> None
                  | d # ds \<Rightarrow>
                      if d = CHR '':'' then
                        (case parse_value n ds of
                           None \<Rightarrow> None
                         | Some (v, r2) \<Rightarrow>
                             (case skip_ws r2 of
                                [] \<Rightarrow> None
                              | f # fs \<Rightarrow>
                                  if f = CHR '','' then parse_members n (set_prop acc k v) fs
                                  else if f = CHR ''}'' then Some (set_prop acc k v, fs)
                                  else None))
                      else None))
          else None)"

definition JSON_parse :: "string \<Rightarrow> jsval option" where
  "JSON_parse s =
     (case parse_value (length s) s of
        None \<Rightarrow> None
      | Some (v, r) \<Rightarrow> if skip_ws r = [] then Some v else None)"


text \<open>The property \<open>k\<close> of the object that a line parses to.\<close>

definition parsed_field :: "string \<Rightarrow> string \<Rightarrow> jsval option" where
  "parsed_field line k =
     (case JSON_parse line of
        Some (JObj r) \<Rightarrow> Some (get r k)
      | _ \<Rightarrow> None)"

text \<open>
  What a JSON text can carry of a value: \<^verbatim>\<open>undefined\<close> is \<^verbatim>\<open>null\<close> in a list and no property
  at all in an object.
\<close>

fun json_norm :: "jsval \<Rightarrow> jsval"
  and norm_list :: "jsval list \<Rightarrow> jsval list"
  and norm_members :: "(string \<times> jsval) list \<Rightarrow> (string \<times> jsval) list" where
  "json_norm JUndefined = JNull"
| "json_norm JNull = JNull"
| "json_norm (JBool b) = JBool b"
| "json_norm (JNum n) = JNum n"
| "json_norm (JStr s) = JStr s"
| "json_norm (JArr xs) = JArr (norm_list xs)"
| "json_norm (JObj kvs) = JObj (norm_members kvs)"
| "norm_list [] = []"
| "norm_list (x # xs) = json_norm x # norm_list xs"
| "norm_members [] = []"
| "norm_members ((k, v) # kvs) =
     (if v = JUndefined then norm_members kvs else (k, json_norm v) # norm_members kvs)"

text \<open>The value holds \<^verbatim>\<open>undefined\<close> nowhere.\<close>

fun no_undefined :: "jsval \<Rightarrow> bool"
  and no_undefined_list :: "jsval list \<Rightarrow> bool"
  and no_undefined_members :: "(string \<times> jsval) list \<Rightarrow> bool" where
  "no_undefined JUndefined = False"
| "no_undefined (JArr xs) = no_undefined_list xs"
| "no_undefined (JObj kvs) = no_undefined_members kvs"
| "no_undefined v = True"
| "no_undefined_list [] = True"
| "no_undefined_list (x # xs) = (no_undefined x \<and> no_undefined_list xs)"
| "no_undefined_members [] = True"
| "no_undefined_members ((k, v) # kvs) = (no_undefined v \<and> no_undefined_members kvs)"

text \<open>No object has a key twice, at any depth.\<close>

fun wf_json :: "jsval \<Rightarrow> bool"
  and wf_list :: "jsval list \<Rightarrow> bool"
  and wf_members :: "(string \<times> jsval) list \<Rightarrow> bool" where
  "wf_json (JArr xs) = wf_list xs"
| "wf_json (JObj kvs) = (distinct (map fst kvs) \<and> wf_members kvs)"
| "wf_json v = True"
| "wf_list [] = True"
| "wf_list (x # xs) = (wf_json x \<and> wf_list xs)"
| "wf_members [] = True"
| "wf_members ((k, v) # kvs) = (wf_json v \<and> wf_members kvs)"

text \<open>What may come after a value in a text.\<close>

definition follow :: "string \<Rightarrow> bool" where
  "follow r =
     (case r of
        [] \<Rightarrow> True
      | c # cs \<Rightarrow> c = CHR '','' \<or> c = CHR '']'' \<or> c = CHR ''}'' \<or> is_ws c)"

section \<open>Shapes of a summary\<close>

text \<open>
  What the property \<^verbatim>\<open>summary\<close> of a result can hold: the object that \<^verbatim>\<open>makeSummary\<close>
  returns at line 311, with its five properties, or the marker \<^verbatim>\<open>{error: true, details}\<close>
  of lines 245 and 319.
\<close>

definition is_scan_summary :: "jsval \<Rightarrow> bool" where
  "is_scan_summary v =
     (case v of
        JObj [(k1, a), (k2, s), (k3, JArr ps), (k4, JNum n), (k5, JArr vs)] \<Rightarrow>
          k1 = ''address'' \<and> k2 = ''status'' \<and> k3 = ''openPorts'' \<and> k4 = ''totalOpen'' \<and>
          k5 = ''vulns''
      | _ \<Rightarrow> False)"

definition is_error_marker :: "jsval \<Rightarrow> bool" where
  "is_error_marker v =
     (case v of
        JObj [(k1, JBool b), (k2, JStr d)] \<Rightarrow> k1 = ''error'' \<and> b \<and> k2 = ''details''
      | _ \<Rightarrow> False)"

text \<open>The property \<open>k\<close> of the object under \<^verbatim>\<open>json\<close> of an emitted result.\<close>

definition emitted_field :: "exn + jsval \<Rightarrow> string \<Rightarrow> jsval" where
  "emitted_field r k =
     (case r of
        Inr (JObj [(j, JObj ob)]) \<Rightarrow> get ob k
      | _ \<Rightarrow> JUndefined)"

section \<open>Example inputs\<close>

text \<open>
  An item, a document tree as xml2js gives it for one host with one open port, and three
  worlds: one where the first scan reports no host up and the retry succeeds, one where
  every scan fails with a refused connection, and one like the first whose history file
  cannot be written.
\<close>

definition ex_params :: item_params where
  "ex_params =
     \<lparr>target = ''10.0.0.9'', scanMode = ''fast'', smartResult = True, saveHistory = True,
      outputFormat = ''xml'', nmapPath = ''nmap'', flagsParam = [], nseScripts = []\<rparr>"

definition ex_world :: world where
  "ex_world = \<lparr>commands = [], history = []\<rparr>"

definition ex_port :: jsval where
  "ex_port =
     JObj [(''$'', JObj [(''protocol'', JStr ''tcp''), (''portid'', JStr ''80'')]),
           (''state'', JObj [(''$'', JObj [(''state'', JStr ''open'')])]),
           (''service'', JObj [(''$'', JObj [(''name'', JStr ''http'')])]),
           (''script'',
            JObj [(''$'', JObj [(''id'', JStr ''http-title''), (''output'', JStr ''Home'')])])]"

definition ex_host :: "jsval \<Rightarrow> jsval" where
  "ex_host ports =
     JObj [(''status'', JObj [(''$'', JObj [(''state'', JStr ''up'')])]),
           (''address'', JObj [(''$'', JObj [(''addr'', JStr ''10.0.0.9'')])]),
           (''ports'', ports)]"

definition ex_doc :: jsval where
  "ex_doc = JObj [(''nmaprun'', JObj [(''host'', ex_host (JObj [(''port'', ex_port)]))])]"

definition ex_env_down :: env where
  "ex_env_down =
     \<lparr>exec = (\<lambda>log c.
        if log = [] then ExecResult (Some ''Command failed'') [] ''Nmap done: 0 hosts up''
        else ExecResult None ''<nmaprun/>'' []),
      parseStringPromise = (\<lambda>s. if s = ''<nmaprun/>'' then Inr ex_doc else Inl ''Error: no root''),
      appendFileSync = (\<lambda>h l. None),
      toISOString = (\<lambda>i. ''2025-01-01T00:00:00.000Z'')\<rparr>"

definition ex_env_refused :: env where
  "ex_env_refused =
     \<lparr>exec = (\<lambda>log c. ExecResult (Some ''Command failed'') [] ''connection refused''),
      parseStringPromise = (\<lambda>s. Inl ''Error: no root''),
      appendFileSync = (\<lambda>h l. None),
      toISOString = (\<lambda>i. ''2025-01-01T00:00:00.000Z'')\<rparr>"

definition ex_env_readonly :: env where
  "ex_env_readonly = ex_env_down\<lparr>appendFileSync := (\<lambda>h l. Some ''EACCES: permission denied'')\<rparr>"

text \<open>
  A world whose scanner reports an open port without the attribute \<^verbatim>\<open>portid\<close>, and the
  tree of that document.
\<close>

definition ex_doc_noid :: jsval where
  "ex_doc_noid =
     JObj [(''nmaprun'',
            JObj [(''host'',
                   ex_host
                     (JObj [(''port'',
                             JObj [(''$'', JObj [(''protocol'', JStr ''tcp'')]),
                                   (''state'',
                                    JObj [(''$'', JObj [(''state'', JStr ''open'')])])])]))])]"

definition ex_env_noid :: env where
  "ex_env_noid =
     \<lparr>exec = (\<lambda>log c. ExecResult None ''<nmaprun/>'' []),
      parseStringPromise = (\<lambda>s. Inr ex_doc_noid),
      appendFileSync = (\<lambda>h l. None),
      toISOString = (\<lambda>i. ''2025-01-01T00:00:00.000Z'')\<rparr>"

text \<open>
  A world whose scanner exits with status 0 and a document without a host, as for a
  target that did not answer; the tree of that document; and a port record that is open
  but has no attributes of its own.
\<close>

definition ex_doc_nohost :: jsval where
  "ex_doc_nohost =
     JObj [(''nmaprun'', JObj [(''runstats'', JObj [(''hosts'', JStr [])])])]"

definition ex_env_nohost :: env where
  "ex_env_nohost =
     \<lparr>exec = (\<lambda>log c.
        ExecResult None ''<nmaprun><runstats><hosts/></runstats></nmaprun>'' []),
      parseStringPromise = (\<lambda>s. Inr ex_doc_nohost),
      appendFileSync = (\<lambda>h l. None),
      toISOString = (\<lambda>i. ''2025-01-01T00:00:00.000Z'')\<rparr>"

definition ex_port_bare :: jsval where
  "ex_port_bare = JObj [(''state'', JObj [(''$'', JObj [(''state'', JStr ''open'')])])]"
section \<open>Objects and strings: basic facts\<close>

lemma str_includes_sublist: "str_includes s pat \<longleftrightarrow> sublist pat s"
  by (induction s) (auto simp: sublist_Cons_right)

lemma str_includes_mid: "str_includes (a @ pat @ b) pat"
  by (simp add: str_includes_sublist)

lemma get_set_prop: "get (set_prop ob k v) k' = (if k' = k then v else get ob k')"
  by (induction ob k v rule: set_prop.induct) (auto simp: get_def)

lemma set_prop_fresh: "map_of ob k = None \<Longrightarrow> set_prop ob k v = ob @ [(k, v)]"
  by (induction ob k v rule: set_prop.induct) (auto split: if_splits)

lemma map_of_set_prop: "map_of (set_prop ob k v) = (map_of ob)(k \<mapsto> v)"
  by (induction ob k v rule: set_prop.induct) auto

lemma map_of_rev_None: "map_of (rev xs) k = None \<longleftrightarrow> map_of xs k = None"
  by (simp add: map_of_eq_None_iff)

text \<open>A spread copies the properties of its source; where a key repeats, the last wins.\<close>

lemma map_of_assign:
  "map_of (assign a b) k = (case map_of (rev b) k of None \<Rightarrow> map_of a k | Some v \<Rightarrow> Some v)"
proof (induction b arbitrary: a)
  case Nil
  then show ?case by (simp add: assign_def)
next
  case (Cons x b)
  obtain k' v' where x: "x = (k', v')" by (cases x)
  have "assign a (x # b) = assign (set_prop a k' v') b"
    by (simp add: assign_def x)
  then show ?case
    using Cons.IH [of "set_prop a k' v'"]
    by (cases "map_of (rev b) k") (simp_all add: x map_of_set_prop map_add_def)
qed

lemma get_assign:
  "get (assign a b) k = (case map_of (rev b) k of None \<Rightarrow> get a k | Some v \<Rightarrow> v)"
  by (cases "map_of (rev b) k") (simp_all add: get_def map_of_assign)

lemma assign_distinct:
  "distinct (map fst b) \<Longrightarrow> fst ` set a \<inter> fst ` set b = {} \<Longrightarrow> assign a b = a @ b"
proof (induction b arbitrary: a)
  case Nil
  then show ?case by (simp add: assign_def)
next
  case (Cons x b)
  obtain k v where x: "x = (k, v)" by (cases x)
  have fresh: "map_of a k = None"
    using Cons.prems(2) by (auto simp: x map_of_eq_None_iff)
  have "assign a (x # b) = assign (set_prop a k v) b"
    by (simp add: assign_def x)
  also have "\<dots> = assign (a @ [(k, v)]) b"
    by (simp add: set_prop_fresh fresh)
  also have "\<dots> = (a @ [(k, v)]) @ b"
    using Cons.prems by (intro Cons.IH) (auto simp: x)
  finally show ?case by (simp add: x)
qed

lemma command_line_includes:
  "str_includes fl tok \<Longrightarrow> str_includes (command_line path fl ff tgt) tok"
  unfolding str_includes_sublist command_line_def
  by (metis append.assoc sublist_append sublist_order.order_refl)

section \<open>Flag derivation\<close>

text \<open>
  C3. The flag string is a function of the scan mode: \<^verbatim>\<open>fast\<close> (quick) gives \<^verbatim>\<open>-T4 -F\<close>,
  \<^verbatim>\<open>full\<close> gives \<^verbatim>\<open>-T4 -p1-65535\<close>, \<^verbatim>\<open>version\<close> gives \<^verbatim>\<open>-sV\<close>, \<^verbatim>\<open>os\<close> gives \<^verbatim>\<open>-O\<close>, \<^verbatim>\<open>custom\<close>
  passes the user's flag string through unchanged (the empty string included), and \<^verbatim>\<open>nse\<close>
  gives \<^verbatim>\<open>--script\<close> followed by the script names joined by commas when the list is not
  empty and the empty flag string when it is.
\<close>

theorem derive_flags_table:
  "derive_flags ''fast'' custom scripts = ''-T4 -F'' \<and>
   derive_flags ''full'' custom scripts = ''-T4 -p1-65535'' \<and>
   derive_flags ''version'' custom scripts = ''-sV'' \<and>
   derive_flags ''os'' custom scripts = ''-O'' \<and>
   derive_flags ''custom'' custom scripts = custom \<and>
   derive_flags ''custom'' [] scripts = [] \<and>
   derive_flags ''nse'' custom [] = [] \<and>
   derive_flags ''nse'' custom (s # ss) = ''--script '' @ join '','' (s # ss)"
  by (simp add: derive_flags_def)

section \<open>The Process Runner and the retry\<close>

lemma runNmap_commands:
  "runNmap e p fl w c = (r, w') \<Longrightarrow> w' = w\<lparr>commands := commands w @ [c]\<rparr>"
  by (auto simp: runNmap_def split: exec_result.splits)

lemma runNmap_Inl:
  "runNmap e p fl w c = (Inl err, w') \<Longrightarrow>
     \<exists>msg out serr. exec e (commands w) c = ExecResult (Some msg) out serr \<and>
       err = rejected c msg out serr"
  by (cases "exec e (commands w) c") (force simp: runNmap_def split: option.splits)

lemma runNmap_Inr:
  "runNmap e p fl w c = (Inr res, w') \<Longrightarrow>
     \<exists>out serr. exec e (commands w) c = ExecResult None out serr \<and> res = resolved p fl c out"
  by (auto simp: runNmap_def split: exec_result.splits option.splits)



lemma downMsg_iff:
  "get err ''details'' = JStr d \<Longrightarrow>
   downMsg err \<longleftrightarrow>
     (str_includes d ''0 hosts up'' \<or> str_includes d ''Failed to resolve'' \<or> host_down_match d)"
  by (cases d) (auto simp: downMsg_def)

text \<open>The two runs of the examples.\<close>

lemma ex_refused_first:
  "runNmap ex_env_refused ex_params (flags_of ex_params) ex_world
     (command_line (binary_path ex_params) (flags_of ex_params)
        (format_flag (outputFormat ex_params)) (target ex_params))
   = (Inl [(''error'', JBool True), (''message'', JStr ''Nmap execution failed''),
           (''details'', JStr ''connection refused''),
           (''cmd'', JStr (command_line ''nmap'' ''-T4 -F'' ''-oX -'' ''10.0.0.9'')),
           (''stdout'', JStr []), (''stderr'', JStr ''connection refused'')],
      \<lparr>commands = [command_line ''nmap'' ''-T4 -F'' ''-oX -'' ''10.0.0.9''], history = []\<rparr>)"
  by (simp add: runNmap_def rejected_def ex_env_refused_def ex_params_def ex_world_def
      flags_of_def derive_flags_def binary_path_def format_flag_def)

lemma ex_down_first:
  "runNmap ex_env_down ex_params (flags_of ex_params) ex_world
     (command_line (binary_path ex_params) (flags_of ex_params)
        (format_flag (outputFormat ex_params)) (target ex_params))
   = (Inl [(''error'', JBool True), (''message'', JStr ''Nmap execution failed''),
           (''details'', JStr ''Nmap done: 0 hosts up''),
           (''cmd'', JStr (command_line ''nmap'' ''-T4 -F'' ''-oX -'' ''10.0.0.9'')),
           (''stdout'', JStr []), (''stderr'', JStr ''Nmap done: 0 hosts up'')],
      \<lparr>commands = [command_line ''nmap'' ''-T4 -F'' ''-oX -'' ''10.0.0.9''], history = []\<rparr>)"
  by (simp add: runNmap_def rejected_def ex_env_down_def ex_params_def ex_world_def
      flags_of_def derive_flags_def binary_path_def format_flag_def)

lemma ex_down_second:
  "runNmap ex_env_down ex_params (flags_of ex_params)
     \<lparr>commands = [command_line ''nmap'' ''-T4 -F'' ''-oX -'' ''10.0.0.9''], history = []\<rparr>
     (command_line (binary_path ex_params) (flags_of ex_params @ '' -Pn'')
        (format_flag (outputFormat ex_params)) (target ex_params))
   = (Inr [(''error'', JBool False), (''target'', JStr ''10.0.0.9''),
           (''cmd'', JStr (command_line ''nmap'' ''-T4 -F -Pn'' ''-oX -'' ''10.0.0.9'')),
           (''output'', JStr ''<nmaprun/>''), (''format'', JStr ''xml''),
           (''flags'', JStr ''-T4 -F'')],
      \<lparr>commands = [command_line ''nmap'' ''-T4 -F'' ''-oX -'' ''10.0.0.9'',
                   command_line ''nmap'' ''-T4 -F -Pn'' ''-oX -'' ''10.0.0.9''],
       history = []\<rparr>)"
  by (simp add: runNmap_def resolved_def ex_env_down_def ex_params_def flags_of_def
      derive_flags_def binary_path_def format_flag_def)

lemma ex_down_details:
  "get [(''error'', JBool True), (''message'', JStr ''Nmap execution failed''),
        (''details'', JStr ''Nmap done: 0 hosts up''),
        (''cmd'', JStr (command_line ''nmap'' ''-T4 -F'' ''-oX -'' ''10.0.0.9'')),
        (''stdout'', JStr []), (''stderr'', JStr ''Nmap done: 0 hosts up'')] ''details''
   = JStr ''Nmap done: 0 hosts up''"
  by (simp add: get_def)

lemma ex_refused_details:
  "get [(''error'', JBool True), (''message'', JStr ''Nmap execution failed''),
        (''details'', JStr ''connection refused''),
        (''cmd'', JStr (command_line ''nmap'' ''-T4 -F'' ''-oX -'' ''10.0.0.9'')),
        (''stdout'', JStr []), (''stderr'', JStr ''connection refused'')] ''details''
   = JStr ''connection refused''"
  by (simp add: get_def)

lemma ex_flags: "flags_of ex_params = ''-T4 -F''"
  by (simp add: flags_of_def ex_params_def derive_flags_def)

lemma ex_command_parts:
  "binary_path ex_params = ''nmap'' \<and> format_flag (outputFormat ex_params) = ''-oX -'' \<and>
   target ex_params = ''10.0.0.9''"
  by (simp add: binary_path_def format_flag_def ex_params_def)

text \<open>
  C1. When the first attempt of an item fails, a second command is run if and only if the
  failure's detail text contains \<^verbatim>\<open>0 hosts up\<close>, contains \<^verbatim>\<open>Failed to resolve\<close> or matches
  \<^verbatim>\<open>/host.*down/i\<close>, and the derived flags do not contain \<^verbatim>\<open>-Pn\<close>. When no second command
  is run, the outcome is the first failure itself, without a \<^verbatim>\<open>resiliency\<close> property, and
  one command was run.
\<close>

theorem retry_iff_host_unreachable:
  assumes first: "runNmap e p (flags_of p) w
             (command_line (binary_path p) (flags_of p) (format_flag (outputFormat p)) (target p))
           = (Inl err, w1)"
    and details: "get err ''details'' = JStr d"
  shows "(commands (snd (scan e p w)) =
            commands w @
              [command_line (binary_path p) (flags_of p) (format_flag (outputFormat p)) (target p),
               command_line (binary_path p) (flags_of p @ '' -Pn'')
                 (format_flag (outputFormat p)) (target p)])
         = ((str_includes d ''0 hosts up'' \<or> str_includes d ''Failed to resolve'' \<or>
             host_down_match d)
            \<and> \<not> str_includes (flags_of p) ''-Pn'')
       \<and> (\<not> ((str_includes d ''0 hosts up'' \<or> str_includes d ''Failed to resolve'' \<or>
                host_down_match d)
               \<and> \<not> str_includes (flags_of p) ''-Pn'') \<longrightarrow>
            fst (scan e p w) = err \<and> map_of (fst (scan e p w)) ''resiliency'' = None \<and>
            commands (snd (scan e p w)) =
              commands w @
              [command_line (binary_path p) (flags_of p) (format_flag (outputFormat p)) (target p)])"
proof -
  let ?c1 = "command_line (binary_path p) (flags_of p) (format_flag (outputFormat p)) (target p)"
  let ?c2 = "command_line (binary_path p) (flags_of p @ '' -Pn'')
               (format_flag (outputFormat p)) (target p)"
  let ?cond = "(str_includes d ''0 hosts up'' \<or> str_includes d ''Failed to resolve'' \<or>
                host_down_match d) \<and> \<not> str_includes (flags_of p) ''-Pn''"
  have w1: "w1 = w\<lparr>commands := commands w @ [?c1]\<rparr>"
    using runNmap_commands [OF first] .
  have nores: "map_of err ''resiliency'' = None"
    using runNmap_Inl [OF first] by (auto simp: rejected_def)
  have dm: "downMsg err =
      (str_includes d ''0 hosts up'' \<or> str_includes d ''Failed to resolve'' \<or> host_down_match d)"
    using downMsg_iff [OF details] .
  show ?thesis
  proof (cases ?cond)
    case True
    obtain r2 w2 where second: "runNmap e p (flags_of p) w1 ?c2 = (r2, w2)"
      by (cases "runNmap e p (flags_of p) w1 ?c2") auto
    have w2: "commands w2 = commands w @ [?c1, ?c2]"
      using runNmap_commands [OF second] w1 by simp
    have "snd (scan e p w) = w2"
      using True first second dm by (cases r2) (simp_all add: scan_def Let_def)
    with True w2 show ?thesis by simp
  next
    case False
    have "scan e p w = (err, w1)"
      using False first dm by (auto simp add: scan_def Let_def)
    with False w1 nores show ?thesis by simp
  qed
qed

theorem retry_iff_host_unreachable_witness:
  "get (fst (scan ex_env_refused ex_params ex_world)) ''details'' = JStr ''connection refused'' \<and>
   get (fst (scan ex_env_refused ex_params ex_world)) ''resiliency'' = JUndefined \<and>
   commands (snd (scan ex_env_refused ex_params ex_world)) =
     [command_line ''nmap'' ''-T4 -F'' ''-oX -'' ''10.0.0.9''] \<and>
   commands (snd (scan ex_env_down ex_params ex_world)) =
     [command_line ''nmap'' ''-T4 -F'' ''-oX -'' ''10.0.0.9'',
      command_line ''nmap'' ''-T4 -F -Pn'' ''-oX -'' ''10.0.0.9'']"
proof -
  have refused: "\<not> ((str_includes ''connection refused'' ''0 hosts up'' \<or>
             str_includes ''connection refused'' ''Failed to resolve'' \<or>
             host_down_match ''connection refused'') \<and>
            \<not> str_includes ''-T4 -F'' ''-Pn'')"
    by (simp add: ci_eq_def)
  have down: "(str_includes ''Nmap done: 0 hosts up'' ''0 hosts up'' \<or>
             str_includes ''Nmap done: 0 hosts up'' ''Failed to resolve'' \<or>
             host_down_match ''Nmap done: 0 hosts up'') \<and>
            \<not> str_includes ''-T4 -F'' ''-Pn''"
    by simp
  show ?thesis
    using retry_iff_host_unreachable [OF ex_refused_first ex_refused_details]
      retry_iff_host_unreachable [OF ex_down_first ex_down_details] refused down
    by (simp add: get_def ex_flags ex_command_parts ex_world_def)
qed



text \<open>The commands one item runs: the first, or the first and the retry.\<close>

lemma scan_commands:
  "commands (snd (scan e p w)) =
     commands w @
       [command_line (binary_path p) (flags_of p) (format_flag (outputFormat p)) (target p)]
   \<or> commands (snd (scan e p w)) =
     commands w @
       [command_line (binary_path p) (flags_of p) (format_flag (outputFormat p)) (target p),
        command_line (binary_path p) (flags_of p @ '' -Pn'')
          (format_flag (outputFormat p)) (target p)]"
proof -
  let ?c1 = "command_line (binary_path p) (flags_of p) (format_flag (outputFormat p)) (target p)"
  let ?c2 = "command_line (binary_path p) (flags_of p @ '' -Pn'')
               (format_flag (outputFormat p)) (target p)"
  obtain r1 w1 where first: "runNmap e p (flags_of p) w ?c1 = (r1, w1)"
    by (cases "runNmap e p (flags_of p) w ?c1") auto
  obtain r2 w2 where second: "runNmap e p (flags_of p) w1 ?c2 = (r2, w2)"
    by (cases "runNmap e p (flags_of p) w1 ?c2") auto
  have w1: "commands w1 = commands w @ [?c1]"
    using runNmap_commands [OF first] by simp
  have w2: "commands w2 = commands w @ [?c1, ?c2]"
    using runNmap_commands [OF second] w1 by simp
  show ?thesis
    using first second w1 w2
    by (cases r1; cases r2) (simp_all add: scan_def Let_def)
qed

lemma run_item_commands: "commands (snd (run_item e i p w)) = commands (snd (scan e p w))"
  by (simp add: run_item_def Let_def split: prod.splits option.splits)

lemma execute_from_commands:
  "length (commands (snd (execute_from e i ps w outs))) \<le> length (commands w) + 2 * length ps"
proof (induction ps arbitrary: i w outs)
  case Nil
  then show ?case by simp
next
  case (Cons p ps)
  obtain r w1 where step: "run_item e i p w = (r, w1)"
    by (cases "run_item e i p w") auto
  have bound: "length (commands w1) \<le> length (commands w) + 2"
    using scan_commands [of e p w] run_item_commands [of e i p w] step by auto
  show ?case
  proof (cases r)
    case (Inl x)
    with step bound show ?thesis by simp
  next
    case (Inr out)
    have "length (commands (snd (execute_from e (Suc i) ps w1 (outs @ [out]))))
            \<le> length (commands w1) + 2 * length ps"
      using Cons.IH .
    with step Inr bound show ?thesis by simp
  qed
qed

text \<open>
  C5. One item runs at most two commands, whatever the first and the second failure say,
  so a batch of \<open>n\<close> items runs at most \<open>2 * n\<close>; and the command of the retry contains
  \<^verbatim>\<open>-Pn\<close>.
\<close>

theorem at_most_two_attempts:
  "length (commands (snd (run_item e i p w))) \<le> length (commands w) + 2 \<and>
   length (commands (snd (execute e items w))) \<le> length (commands w) + 2 * length items \<and>
   str_includes
     (command_line (binary_path p) (flags_of p @ '' -Pn'') (format_flag (outputFormat p)) (target p))
     ''-Pn''"
proof -
  have "length (commands (snd (run_item e i p w))) \<le> length (commands w) + 2"
    using scan_commands [of e p w] run_item_commands [of e i p w] by auto
  moreover have "str_includes (flags_of p @ '' -Pn'') ''-Pn''"
    using str_includes_mid [of "flags_of p @ '' ''" "''-Pn''" "[]"] by simp
  ultimately show ?thesis
    using execute_from_commands [of e 0 items w "[]"]
    by (simp add: execute_def command_line_includes)
qed

section \<open>The outcome of the scan\<close>

lemma scan_history: "history (snd (scan e p w)) = history w"
  by (auto simp: scan_def Let_def runNmap_def split: exec_result.splits option.splits)

lemma scan_retry:
  assumes first: "runNmap e p (flags_of p) w
             (command_line (binary_path p) (flags_of p) (format_flag (outputFormat p)) (target p))
           = (Inl err, w1)"
    and down: "downMsg err"
    and no_override: "\<not> str_includes (flags_of p) ''-Pn''"
    and second: "runNmap e p (flags_of p) w1
             (command_line (binary_path p) (flags_of p @ '' -Pn'')
                (format_flag (outputFormat p)) (target p))
           = (outcome2, w2)"
  shows "scan e p w =
           (case outcome2 of
              Inr res \<Rightarrow>
                (set_prop res ''resiliency''
                   (resiliency_note ''First scan failed, retried with -Pn.'' err), w2)
            | Inl err2 \<Rightarrow>
                (set_prop (assign [] err2) ''resiliency''
                   (resiliency_note ''Scan failed even after retrying with -Pn.'' err), w2))"
  using assms by (cases outcome2) (simp_all add: scan_def Let_def)

text \<open>The four shapes of \<^verbatim>\<open>scanResult\<close>.\<close>

lemma scan_cases:
  obtains (ok) c out where "fst (scan e p w) = resolved p (flags_of p) c out"
  | (failed) c msg out serr where "fst (scan e p w) = rejected c msg out serr"
  | (retry_ok) c out c0 msg0 out0 serr0 where
      "fst (scan e p w) =
         resolved p (flags_of p) c out @
         [(''resiliency'',
           resiliency_note ''First scan failed, retried with -Pn.''
             (rejected c0 msg0 out0 serr0))]"
  | (retry_failed) c msg out serr c0 msg0 out0 serr0 where
      "fst (scan e p w) =
         rejected c msg out serr @
         [(''resiliency'',
           resiliency_note ''Scan failed even after retrying with -Pn.''
             (rejected c0 msg0 out0 serr0))]"
proof -
  let ?c1 = "command_line (binary_path p) (flags_of p) (format_flag (outputFormat p)) (target p)"
  let ?c2 = "command_line (binary_path p) (flags_of p @ '' -Pn'')
               (format_flag (outputFormat p)) (target p)"
  obtain r1 w1 where first: "runNmap e p (flags_of p) w ?c1 = (r1, w1)"
    by (cases "runNmap e p (flags_of p) w ?c1") auto
  obtain r2 w2 where second: "runNmap e p (flags_of p) w1 ?c2 = (r2, w2)"
    by (cases "runNmap e p (flags_of p) w1 ?c2") auto
  show ?thesis
  proof (cases r1)
    case (Inr res)
    with first show ?thesis
      using runNmap_Inr [of e p "flags_of p" w ?c1 res w1] ok
      by (auto simp: scan_def Let_def)
  next
    case (Inl err)
    obtain msg0 out0 serr0 where err: "err = rejected ?c1 msg0 out0 serr0"
      using runNmap_Inl [of e p "flags_of p" w ?c1 err w1] first Inl by blast
    show ?thesis
    proof (cases "downMsg err \<and> \<not> str_includes (flags_of p) ''-Pn''")
      case False
      with Inl first err failed show ?thesis
        by (auto simp: scan_def Let_def)
    next
      case True
      show ?thesis
      proof (cases r2)
        case (Inr res)
        obtain out2 where "res = resolved p (flags_of p) ?c2 out2"
          using runNmap_Inr [of e p "flags_of p" w1 ?c2 res w2] second Inr by blast
        with True Inl Inr first second err retry_ok [of ?c2 out2 ?c1 msg0 out0 serr0]
        show ?thesis
          by (simp add: scan_def Let_def resolved_def)
      next
        case (Inl err2)
        obtain msg2 out2 serr2 where "err2 = rejected ?c2 msg2 out2 serr2"
          using runNmap_Inl [of e p "flags_of p" w1 ?c2 err2 w2] second Inl by blast
        with True \<open>r1 = Inl err\<close> Inl first second err
          retry_failed [of ?c2 msg2 out2 serr2 ?c1 msg0 out0 serr0]
        show ?thesis
          by (simp add: scan_def Let_def rejected_def assign_def)
      qed
    qed
  qed
qed

lemma scan_fields:
  "((\<exists>txt. get (fst (scan e p w)) ''error'' = JBool False \<and>
           get (fst (scan e p w)) ''output'' = JStr txt) \<or>
    (get (fst (scan e p w)) ''error'' = JBool True \<and>
     get (fst (scan e p w)) ''output'' = JUndefined)) \<and>
   map_of (fst (scan e p w)) ''summary'' = None \<and>
   map_of (fst (scan e p w)) ''parsed'' = None"
  by (rule scan_cases [of e p w]) (simp_all add: get_def resolved_def rejected_def)

lemma ex_down_scan:
  "scan ex_env_down ex_params ex_world =
     (resolved ex_params ''-T4 -F'' (command_line ''nmap'' ''-T4 -F -Pn'' ''-oX -'' ''10.0.0.9'')
        ''<nmaprun/>'' @
      [(''resiliency'',
        resiliency_note ''First scan failed, retried with -Pn.''
          (rejected (command_line ''nmap'' ''-T4 -F'' ''-oX -'' ''10.0.0.9'') ''Command failed''
             [] ''Nmap done: 0 hosts up''))],
      \<lparr>commands = [command_line ''nmap'' ''-T4 -F'' ''-oX -'' ''10.0.0.9'',
                   command_line ''nmap'' ''-T4 -F -Pn'' ''-oX -'' ''10.0.0.9''],
       history = []\<rparr>)"
  by (simp add: scan_def runNmap_def Let_def ex_env_down_def ex_world_def ex_flags
      ex_command_parts downMsg_def rejected_def resolved_def get_def)

section \<open>The summary\<close>

lemma summary_body_shape: "summary_body t = Inr s \<Longrightarrow> is_scan_summary s"
  by (auto simp: summary_body_def bind_def is_scan_summary_def split: sum.splits)

lemma error_marker_shape:
  "is_error_marker (error_marker d) \<and> \<not> is_scan_summary (error_marker d)"
  by (simp add: is_error_marker_def is_scan_summary_def error_marker_def)

lemma makeSummary_shape:
  "is_scan_summary (makeSummary t) = (\<exists>s. summary_body t = Inr s) \<and>
   (is_scan_summary (makeSummary t) \<or> is_error_marker (makeSummary t))"
  by (cases "summary_body t")
     (simp_all add: makeSummary_def error_marker_shape summary_body_shape)

lemma shapes_disjoint: "\<not> (is_scan_summary v \<and> is_error_marker v)"
  by (auto simp: is_scan_summary_def is_error_marker_def
      split: jsval.splits list.splits prod.splits)

lemma truthy_shapes: "is_scan_summary v \<or> is_error_marker v \<Longrightarrow> truthy v"
  by (auto simp: is_scan_summary_def is_error_marker_def
      split: jsval.splits list.splits prod.splits)

lemma result_json_summary:
  assumes "map_of sr ''summary'' = None"
  shows "map_of (result_json p sr parsed summary) ''summary'' =
           (if smartResult p \<and> truthy summary then Some summary else None)"
proof -
  have "map_of (rev sr) ''summary'' = None"
    using assms by (simp add: map_of_rev_None)
  then show ?thesis
    by (simp add: result_json_def map_of_assign)
qed

lemma run_item_emitted:
  "run_item e i p w = (Inr out, w') \<Longrightarrow>
     out = JObj [(''json'',
       JObj (result_json p (fst (scan e p w)) (fst (summarize e p (fst (scan e p w))))
          (snd (summarize e p (fst (scan e p w))))))]"
  by (auto simp: run_item_def Let_def split: prod.splits if_splits option.splits)

lemma run_item_written:
  assumes "\<forall>h l. appendFileSync e h l = None"
  shows "\<exists>out w1. run_item e i p w = (Inr out, w1)"
proof -
  obtain sr w1 where sc: "scan e p w = (sr, w1)"
    by (cases "scan e p w") auto
  obtain parsed summary where su: "summarize e p sr = (parsed, summary)"
    by (cases "summarize e p sr") auto
  show ?thesis
    using sc su assms by (simp add: run_item_def Let_def)
qed

lemma ex_doc_reads:
  "read_prop ex_doc ''nmaprun'' = Inr (JObj [(''host'', ex_host (JObj [(''port'', ex_port)]))]) \<and>
   read_prop (JObj [(''host'', ex_host ports)]) ''host'' = Inr (ex_host ports) \<and>
   opt_attr (ex_host ports) ''status'' ''state'' = Inr (JStr ''up'') \<and>
   opt_attr (ex_host ports) ''address'' ''addr'' = Inr (JStr ''10.0.0.9'') \<and>
   host_ports (ex_host (JObj [(''port'', ex_port)])) = Inr ex_port \<and>
   host_ports (ex_host JUndefined) = Inr JUndefined"
  by (simp add: ex_doc_def ex_host_def get_def opt_attr_def attr_def host_ports_def bind_def)

lemma ex_port_reads:
  "opt_attr ex_port ''state'' ''state'' = Inr (JStr ''open'') \<and>
   port_entry ex_port =
     Inr (JObj [(''port'', JStr ''80''), (''service'', JStr ''http''), (''product'', JStr []),
                (''version'', JStr []), (''extra'', JStr [])]) \<and>
   port_findings ex_port =
     Inr [JObj [(''port'', JStr ''80''), (''script'', JStr ''http-title''),
                (''output'', JStr ''Home'')]]"
  by (simp add: ex_port_def get_def opt_attr_def attr_def port_entry_def port_findings_def
      script_finding_def bind_def or_else_def)

lemma ex_doc_summary:
  "summary_body ex_doc =
     Inr (JObj [(''address'', JStr ''10.0.0.9''), (''status'', JStr ''up''),
                (''openPorts'',
                 JArr [JObj [(''port'', JStr ''80''), (''service'', JStr ''http''),
                             (''product'', JStr []), (''version'', JStr []),
                             (''extra'', JStr [])]]),
                (''totalOpen'', JNum 1),
                (''vulns'',
                 JArr [JObj [(''port'', JStr ''80''), (''script'', JStr ''http-title''),
                             (''output'', JStr ''Home'')]])])"
  by (simp add: summary_body_def ex_doc_def ex_host_def ex_port_def get_def opt_attr_def
      attr_def host_ports_def open_ports_def port_entry_def port_findings_def
      script_finding_def nse_results_def bind_def or_else_def)

text \<open>
  C4 (amended). The result of an item holds a scan summary under \<^verbatim>\<open>summary\<close> if and only if
  the final outcome is a success (\<^verbatim>\<open>error\<close> is \<^verbatim>\<open>false\<close>), the format is \<^verbatim>\<open>xml\<close>, the smart
  result was asked for, xml2js gave a tree for the output, and the extractor read that
  tree to the end (the \<^verbatim>\<open>try\<close> block of \<^verbatim>\<open>makeSummary\<close> threw nothing). In every other case
  \<^verbatim>\<open>summary\<close> is absent or is an error marker \<^verbatim>\<open>{error: true, details}\<close>; nothing is both a
  summary and an error marker.
\<close>

theorem summary_present_iff:
  assumes emitted: "run_item e i p w = (Inr out, w')"
  shows "\<exists>j. out = JObj [(''json'', JObj j)] \<and>
     (is_scan_summary (get j ''summary'') \<longleftrightarrow>
        get (fst (scan e p w)) ''error'' = JBool False \<and> outputFormat p = ''xml'' \<and>
        smartResult p \<and>
        (\<exists>txt tree s. get (fst (scan e p w)) ''output'' = JStr txt \<and>
           parseStringPromise e txt = Inr tree \<and> summary_body tree = Inr s)) \<and>
     (is_scan_summary (get j ''summary'') \<or> map_of j ''summary'' = None \<or>
      is_error_marker (get j ''summary'')) \<and>
     \<not> (is_scan_summary (get j ''summary'') \<and> is_error_marker (get j ''summary''))"
proof -
  let ?sr = "fst (scan e p w)"
  let ?summary = "snd (summarize e p ?sr)"
  let ?j = "result_json p ?sr (fst (summarize e p ?sr)) ?summary"
  have out: "out = JObj [(''json'', JObj ?j)]"
    using run_item_emitted [OF emitted] .
  have fields: "((\<exists>txt. get ?sr ''error'' = JBool False \<and> get ?sr ''output'' = JStr txt) \<or>
      (get ?sr ''error'' = JBool True \<and> get ?sr ''output'' = JUndefined))"
    and fresh: "map_of ?sr ''summary'' = None"
    using scan_fields [of e p w] by auto
  have slot: "map_of ?j ''summary'' =
      (if smartResult p \<and> truthy ?summary then Some ?summary else None)"
    using result_json_summary [OF fresh] .
  have cases: "?summary = JNull \<or> is_scan_summary ?summary \<or> is_error_marker ?summary"
    using makeSummary_shape error_marker_shape
    by (auto simp: summarize_def split: jsval.splits sum.splits)
  have null: "\<not> is_scan_summary JNull"
    by (simp add: is_scan_summary_def)
  have present: "is_scan_summary ?summary \<longleftrightarrow>
        get ?sr ''error'' = JBool False \<and> outputFormat p = ''xml'' \<and> smartResult p \<and>
        (\<exists>txt tree s. get ?sr ''output'' = JStr txt \<and>
           parseStringPromise e txt = Inr tree \<and> summary_body tree = Inr s)"
    using fields makeSummary_shape error_marker_shape null
    by (auto simp: summarize_def split: jsval.splits sum.splits)
  have smart: "is_scan_summary ?summary \<Longrightarrow> smartResult p"
    using present by simp
  have undef: "\<not> is_scan_summary JUndefined"
    by (simp add: is_scan_summary_def)
  have "is_scan_summary (get ?j ''summary'') \<longleftrightarrow> is_scan_summary ?summary"
    using slot smart undef truthy_shapes [of ?summary] by (auto simp: get_def)
  moreover have "is_scan_summary (get ?j ''summary'') \<or> map_of ?j ''summary'' = None \<or>
      is_error_marker (get ?j ''summary'')"
    using slot cases by (auto simp: get_def)
  ultimately show ?thesis
    using out present shapes_disjoint by blast
qed

theorem summary_present_iff_witness:
  "\<exists>j. fst (run_item ex_env_down 0 ex_params ex_world) = Inr (JObj [(''json'', JObj j)]) \<and>
       is_scan_summary (get j ''summary'')"
proof -
  have "\<forall>h l. appendFileSync ex_env_down h l = None"
    by (simp add: ex_env_down_def)
  then obtain out w' where run: "run_item ex_env_down 0 ex_params ex_world = (Inr out, w')"
    using run_item_written by blast
  have success: "get (fst (scan ex_env_down ex_params ex_world)) ''error'' = JBool False"
    and payload: "get (fst (scan ex_env_down ex_params ex_world)) ''output'' = JStr ''<nmaprun/>''"
    by (simp_all add: ex_down_scan resolved_def get_def)
  have tree: "parseStringPromise ex_env_down ''<nmaprun/>'' = Inr ex_doc"
    by (simp add: ex_env_down_def)
  have asked: "outputFormat ex_params = ''xml'' \<and> smartResult ex_params"
    by (simp add: ex_params_def)
  have "get (fst (scan ex_env_down ex_params ex_world)) ''error'' = JBool False \<and>
      outputFormat ex_params = ''xml'' \<and> smartResult ex_params \<and>
      (\<exists>txt tree s. get (fst (scan ex_env_down ex_params ex_world)) ''output'' = JStr txt \<and>
         parseStringPromise ex_env_down txt = Inr tree \<and> summary_body tree = Inr s)"
    using success payload tree asked ex_doc_summary by blast
  with summary_present_iff [OF run] run show ?thesis
    by auto
qed

lemma ex_nohost_scan:
  "scan ex_env_nohost ex_params ex_world =
     (resolved ex_params ''-T4 -F'' (command_line ''nmap'' ''-T4 -F'' ''-oX -'' ''10.0.0.9'')
        ''<nmaprun><runstats><hosts/></runstats></nmaprun>'',
      \<lparr>commands = [command_line ''nmap'' ''-T4 -F'' ''-oX -'' ''10.0.0.9''], history = []\<rparr>)"
  by (simp add: scan_def runNmap_def Let_def ex_env_nohost_def ex_world_def ex_flags
      ex_command_parts)

lemma ex_nohost_summary:
  "makeSummary ex_doc_nohost =
     error_marker (''TypeError: Cannot read properties of undefined (reading '' @ [CHR 0x27] @
                   ''status'' @ [CHR 0x27] @ '')'')"
  by (simp add: makeSummary_def summary_body_def ex_doc_nohost_def get_def opt_attr_def
      bind_def)


text \<open>
  C4 as stated fails for a document without a host. The scan succeeds, the format is
  \<^verbatim>\<open>xml\<close>, the smart result is asked for and xml2js gives a tree, yet \<^verbatim>\<open>makeSummary\<close> reads
  \<^verbatim>\<open>host.status\<close> of an undefined host, catches the \<^verbatim>\<open>TypeError\<close> and returns the error
  marker: the result holds no scan summary.
\<close>

theorem summary_error_marker_without_host:
  "get (fst (scan ex_env_nohost ex_params ex_world)) ''error'' = JBool False \<and>
   outputFormat ex_params = ''xml'' \<and> smartResult ex_params \<and>
   get (fst (scan ex_env_nohost ex_params ex_world)) ''output'' =
     JStr ''<nmaprun><runstats><hosts/></runstats></nmaprun>'' \<and>
   parseStringPromise ex_env_nohost ''<nmaprun><runstats><hosts/></runstats></nmaprun>'' =
     Inr ex_doc_nohost \<and>
   emitted_field (fst (run_item ex_env_nohost 0 ex_params ex_world)) ''summary'' =
     error_marker (''TypeError: Cannot read properties of undefined (reading '' @ [CHR 0x27] @
                   ''status'' @ [CHR 0x27] @ '')'') \<and>
   \<not> is_scan_summary
       (emitted_field (fst (run_item ex_env_nohost 0 ex_params ex_world)) ''summary'')"
proof -
  have written: "\<forall>h l. appendFileSync ex_env_nohost h l = None"
    by (simp add: ex_env_nohost_def)
  obtain out w' where run: "run_item ex_env_nohost 0 ex_params ex_world = (Inr out, w')"
    using run_item_written [OF written] by blast
  let ?sr = "resolved ex_params ''-T4 -F''
      (command_line ''nmap'' ''-T4 -F'' ''-oX -'' ''10.0.0.9'')
      ''<nmaprun><runstats><hosts/></runstats></nmaprun>''"
  have sr: "fst (scan ex_env_nohost ex_params ex_world) = ?sr"
    by (simp add: ex_nohost_scan)
  have tree: "parseStringPromise ex_env_nohost ''<nmaprun><runstats><hosts/></runstats></nmaprun>'' =
      Inr ex_doc_nohost"
    by (simp add: ex_env_nohost_def)
  have asked: "outputFormat ex_params = ''xml'' \<and> smartResult ex_params"
    by (simp add: ex_params_def)
  have su: "summarize ex_env_nohost ex_params ?sr = (ex_doc_nohost, makeSummary ex_doc_nohost)"
    using tree asked by (simp add: summarize_def resolved_def get_def)
  have fresh: "map_of ?sr ''summary'' = None"
    by (simp add: resolved_def)
  have "out = JObj [(''json'', JObj (result_json ex_params ?sr ex_doc_nohost
      (makeSummary ex_doc_nohost)))]"
    using run_item_emitted [OF run] by (simp add: sr su)
  then have "emitted_field (fst (run_item ex_env_nohost 0 ex_params ex_world)) ''summary'' =
      makeSummary ex_doc_nohost"
    using result_json_summary [OF fresh, of ex_params ex_doc_nohost "makeSummary ex_doc_nohost"]
      asked
    by (simp add: run emitted_field_def get_def ex_nohost_summary error_marker_def)
  then show ?thesis
    using tree asked error_marker_shape
    by (simp add: sr ex_nohost_summary) (simp add: resolved_def get_def)
qed


text \<open>
  C6 (amended). Let the document have a host whose status and address can be read. When
  the host has no port entry (\<^verbatim>\<open>host.ports?.port\<close> is \<^verbatim>\<open>undefined\<close>, or an empty list) the
  summary is not an error: its \<^verbatim>\<open>openPorts\<close> is the empty list and its \<^verbatim>\<open>totalOpen\<close> is 0.
  When the port entry is a single record (not a list) whose state is \<^verbatim>\<open>open\<close>, and whose
  own fields can be read, \<^verbatim>\<open>openPorts\<close> has exactly one element and \<^verbatim>\<open>totalOpen\<close> is 1. A
  single record that has a state gives the same open ports as the list of that one
  record.
\<close>

theorem summary_port_shapes:
  assumes nmaprun: "read_prop parsed ''nmaprun'' = Inr run"
    and host: "read_prop run ''host'' = Inr host"
    and status: "opt_attr host ''status'' ''state'' = Inr st"
    and address: "opt_attr host ''address'' ''addr'' = Inr ad"
    and ports: "host_ports host = Inr ports"
  shows "(ports = JUndefined \<or> ports = JArr [] \<longrightarrow>
            makeSummary parsed =
              JObj [(''address'', or_else ad (JStr ''unknown'')),
                    (''status'', or_else st (JStr ''unknown'')),
                    (''openPorts'', JArr []), (''totalOpen'', JNum 0), (''vulns'', JArr [])])
       \<and> (ports = JObj kvs \<and> opt_attr ports ''state'' ''state'' = Inr (JStr ''open'') \<and>
          port_entry ports = Inr pe \<and> port_findings ports = Inr fs \<longrightarrow>
            makeSummary parsed =
              JObj [(''address'', or_else ad (JStr ''unknown'')),
                    (''status'', or_else st (JStr ''unknown'')),
                    (''openPorts'', JArr [pe]), (''totalOpen'', JNum 1), (''vulns'', JArr fs)])
       \<and> (ports = JObj kvs \<and> \<not> nullish (get kvs ''state'') \<longrightarrow>
            open_ports (JArr [ports]) = open_ports ports)"
proof -
  have body: "summary_body parsed =
      bind (open_ports ports) (\<lambda>openPorts.
      bind (map_exn port_entry openPorts) (\<lambda>portList.
      bind (nse_results openPorts) (\<lambda>nseResults.
        Inr (JObj [(''address'', or_else ad (JStr ''unknown'')),
                   (''status'', or_else st (JStr ''unknown'')),
                   (''openPorts'', JArr portList),
                   (''totalOpen'', JNum (int (length openPorts))),
                   (''vulns'', JArr nseResults)]))))"
    using assms by (simp add: summary_body_def bind_def)
  have none: "ports = JUndefined \<or> ports = JArr [] \<Longrightarrow> open_ports ports = Inr []"
    by (auto simp: open_ports_def)
  have one: "ports = JObj kvs \<Longrightarrow> opt_attr ports ''state'' ''state'' = Inr (JStr ''open'') \<Longrightarrow>
      open_ports ports = Inr [ports]"
    by (simp add: open_ports_def bind_def)
  have same: "ports = JObj kvs \<Longrightarrow> \<not> nullish (get kvs ''state'') \<Longrightarrow>
      open_ports (JArr [ports]) = open_ports ports"
    by (auto simp: open_ports_def is_open_def opt_attr_def bind_def split: sum.splits)
  show ?thesis
    using body none one same
    by (auto simp: makeSummary_def bind_def nse_results_def)
qed

theorem summary_port_shapes_witness:
  "makeSummary (JObj [(''nmaprun'', JObj [(''host'', ex_host JUndefined)])]) =
     JObj [(''address'', JStr ''10.0.0.9''), (''status'', JStr ''up''),
           (''openPorts'', JArr []), (''totalOpen'', JNum 0), (''vulns'', JArr [])] \<and>
   makeSummary ex_doc =
     JObj [(''address'', JStr ''10.0.0.9''), (''status'', JStr ''up''),
           (''openPorts'',
            JArr [JObj [(''port'', JStr ''80''), (''service'', JStr ''http''),
                        (''product'', JStr []), (''version'', JStr []), (''extra'', JStr [])]]),
           (''totalOpen'', JNum 1),
           (''vulns'',
            JArr [JObj [(''port'', JStr ''80''), (''script'', JStr ''http-title''),
                        (''output'', JStr ''Home'')]])] \<and>
   open_ports (JArr [ex_port]) = open_ports ex_port"
proof -
  let ?run0 = "JObj [(''host'', ex_host JUndefined)]"
  let ?run1 = "JObj [(''host'', ex_host (JObj [(''port'', ex_port)]))]"
  have r0: "read_prop (JObj [(''nmaprun'', ?run0)]) ''nmaprun'' = Inr ?run0"
    by (simp add: get_def)
  have h0: "read_prop ?run0 ''host'' = Inr (ex_host JUndefined)"
    using ex_doc_reads [of JUndefined] by simp
  have s0: "opt_attr (ex_host JUndefined) ''status'' ''state'' = Inr (JStr ''up'')"
    and a0: "opt_attr (ex_host JUndefined) ''address'' ''addr'' = Inr (JStr ''10.0.0.9'')"
    and p0: "host_ports (ex_host JUndefined) = Inr JUndefined"
    using ex_doc_reads [of JUndefined] by simp_all
  have r1: "read_prop ex_doc ''nmaprun'' = Inr ?run1"
    and h1: "read_prop ?run1 ''host'' = Inr (ex_host (JObj [(''port'', ex_port)]))"
    and s1: "opt_attr (ex_host (JObj [(''port'', ex_port)])) ''status'' ''state'' = Inr (JStr ''up'')"
    and a1: "opt_attr (ex_host (JObj [(''port'', ex_port)])) ''address'' ''addr''
               = Inr (JStr ''10.0.0.9'')"
    and p1: "host_ports (ex_host (JObj [(''port'', ex_port)])) = Inr ex_port"
    using ex_doc_reads [of "JObj [(''port'', ex_port)]"] by simp_all
  have port: "ex_port =
      JObj [(''$'', JObj [(''protocol'', JStr ''tcp''), (''portid'', JStr ''80'')]),
            (''state'', JObj [(''$'', JObj [(''state'', JStr ''open'')])]),
            (''service'', JObj [(''$'', JObj [(''name'', JStr ''http'')])]),
            (''script'',
             JObj [(''$'', JObj [(''id'', JStr ''http-title''), (''output'', JStr ''Home'')])])]"
    by (simp add: ex_port_def)
  have state: "\<not> nullish (get [(''$'', JObj [(''protocol'', JStr ''tcp''), (''portid'', JStr ''80'')]),
            (''state'', JObj [(''$'', JObj [(''state'', JStr ''open'')])]),
            (''service'', JObj [(''$'', JObj [(''name'', JStr ''http'')])]),
            (''script'',
             JObj [(''$'', JObj [(''id'', JStr ''http-title''), (''output'', JStr ''Home'')])])]
          ''state'')"
    by (simp add: get_def)
  show ?thesis
    using summary_port_shapes [OF r0 h0 s0 a0 p0]
      summary_port_shapes [OF r1 h1 s1 a1 p1] port state ex_port_reads
    by (simp add: or_else_def)
qed

text \<open>
  C6 as stated fails for a parsed document with no port entry and no host, and for a
  single open port record without attributes of its own: each gives the error marker,
  not a summary.
\<close>

theorem summary_error_without_host_or_attributes:
  "makeSummary ex_doc_nohost =
     error_marker (''TypeError: Cannot read properties of undefined (reading '' @ [CHR 0x27] @
                   ''status'' @ [CHR 0x27] @ '')'') \<and>
   host_ports (ex_host (JObj [(''port'', ex_port_bare)])) = Inr ex_port_bare \<and>
   opt_attr ex_port_bare ''state'' ''state'' = Inr (JStr ''open'') \<and>
   makeSummary (JObj [(''nmaprun'', JObj [(''host'', ex_host (JObj [(''port'', ex_port_bare)]))])]) =
     error_marker (''TypeError: Cannot read properties of undefined (reading '' @ [CHR 0x27] @
                   ''portid'' @ [CHR 0x27] @ '')'')"
  by (simp add: ex_nohost_summary)
     (simp add: makeSummary_def summary_body_def ex_host_def ex_port_bare_def get_def
      opt_attr_def attr_def host_ports_def open_ports_def port_entry_def bind_def)

text \<open>
  X2. Whatever else a parsed document holds, when it has no host (\<^verbatim>\<open>parsed.nmaprun.host\<close> is
  \<^verbatim>\<open>undefined\<close> or \<^verbatim>\<open>null\<close>) the extractor gives the error marker.
\<close>

theorem makeSummary_without_host:
  assumes "read_prop parsed ''nmaprun'' = Inr run"
    and "read_prop run ''host'' = Inr host"
    and "nullish host"
  shows "is_error_marker (makeSummary parsed)"
proof -
  have "\<exists>x. opt_attr host ''status'' ''state'' = Inl x"
    using assms(3) by (cases host) (simp_all add: opt_attr_def bind_def)
  then obtain x where "summary_body parsed = Inl x"
    using assms(1,2) by (auto simp: summary_body_def bind_def)
  then show ?thesis
    by (simp add: makeSummary_def error_marker_shape)
qed

theorem makeSummary_without_host_witness:
  "read_prop ex_doc_nohost ''nmaprun'' = Inr (JObj [(''runstats'', JObj [(''hosts'', JStr [])])]) \<and>
   read_prop (JObj [(''runstats'', JObj [(''hosts'', JStr [])])]) ''host'' = Inr JUndefined \<and>
   nullish JUndefined \<and> is_error_marker (makeSummary ex_doc_nohost)"
proof -
  have a: "read_prop ex_doc_nohost ''nmaprun'' =
      Inr (JObj [(''runstats'', JObj [(''hosts'', JStr [])])])"
    by (simp add: ex_doc_nohost_def get_def)
  have b: "read_prop (JObj [(''runstats'', JObj [(''hosts'', JStr [])])]) ''host'' = Inr JUndefined"
    by (simp add: get_def)
  have c: "nullish JUndefined"
    by (simp add:)
  from makeSummary_without_host [OF a b c] a b c show ?thesis
    by blast
qed

section \<open>The result and the history record\<close>

lemma get_result_json:
  "k \<noteq> ''parsed'' \<Longrightarrow> k \<noteq> ''summary'' \<Longrightarrow> distinct (map fst sr) \<Longrightarrow>
     get (result_json p sr parsed summary) k = get sr k"
  by (simp add: result_json_def get_assign assign_distinct)

lemma get_history_obj_flags:
  "get (history_obj ts p summary sr) ''flags'' = JStr (flags_of p)"
  by (simp add: history_obj_def get_assign) (simp add: get_def)

lemma run_item_history:
  assumes "run_item e i p w = (Inr out, w')" and "saveHistory p"
  shows "history w' = history w @
     [JSON_stringify (history_obj (toISOString e i) p
        (snd (summarize e p (fst (scan e p w)))) (fst (scan e p w))) @ [CHR 0x0A]]"
proof -
  obtain sr w1 where sc: "scan e p w = (sr, w1)"
    by (cases "scan e p w") auto
  obtain parsed summary where su: "summarize e p sr = (parsed, summary)"
    by (cases "summarize e p sr") auto
  have "history w1 = history w"
    using scan_history [of e p w] sc by simp
  then show ?thesis
    using assms sc su by (auto simp: run_item_def Let_def split: option.splits)
qed

text \<open>
  C9. When the retry is triggered and the second attempt succeeds, the \<^verbatim>\<open>flags\<close> of the
  result and of the history record of the item are the derived flags, which do not
  contain \<^verbatim>\<open>-Pn\<close>, while the \<^verbatim>\<open>cmd\<close> of the result is the command that was run, which does.
\<close>

theorem retry_success_keeps_base_flags:
  assumes first: "runNmap e p (flags_of p) w
             (command_line (binary_path p) (flags_of p) (format_flag (outputFormat p)) (target p))
           = (Inl err, w1)"
    and details: "get err ''details'' = JStr d"
    and unreachable:
      "str_includes d ''0 hosts up'' \<or> str_includes d ''Failed to resolve'' \<or> host_down_match d"
    and no_override: "\<not> str_includes (flags_of p) ''-Pn''"
    and second: "runNmap e p (flags_of p) w1
             (command_line (binary_path p) (flags_of p @ '' -Pn'')
                (format_flag (outputFormat p)) (target p))
           = (Inr res, w2)"
    and save: "saveHistory p"
    and emitted: "run_item e i p w = (Inr out, w')"
  shows "\<exists>j summary sr.
           out = JObj [(''json'', JObj j)] \<and>
           get j ''flags'' = JStr (flags_of p) \<and>
           get j ''cmd'' =
             JStr (command_line (binary_path p) (flags_of p @ '' -Pn'')
                     (format_flag (outputFormat p)) (target p)) \<and>
           str_includes
             (command_line (binary_path p) (flags_of p @ '' -Pn'')
                (format_flag (outputFormat p)) (target p)) ''-Pn'' \<and>
           history w' =
             history w @
               [JSON_stringify (history_obj (toISOString e i) p summary sr) @ [CHR 0x0A]] \<and>
           get (history_obj (toISOString e i) p summary sr) ''flags'' = JStr (flags_of p)"
proof -
  let ?c2 = "command_line (binary_path p) (flags_of p @ '' -Pn'')
               (format_flag (outputFormat p)) (target p)"
  let ?sr = "fst (scan e p w)"
  let ?summary = "snd (summarize e p ?sr)"
  let ?j = "result_json p ?sr (fst (summarize e p ?sr)) ?summary"
  have dm: "downMsg err"
    using downMsg_iff [OF details] unreachable by simp
  obtain out2 where res: "res = resolved p (flags_of p) ?c2 out2"
    using runNmap_Inr [OF second] by blast
  have sr: "?sr = resolved p (flags_of p) ?c2 out2 @
      [(''resiliency'', resiliency_note ''First scan failed, retried with -Pn.'' err)]"
    using scan_retry [OF first dm no_override second] res
    by (simp add: resolved_def)
  have "distinct (map fst ?sr)"
    by (simp add: sr resolved_def)
  then have fl: "get ?j ''flags'' = JStr (flags_of p)" and cmd: "get ?j ''cmd'' = JStr ?c2"
    by (simp_all add: get_result_json) (simp_all add: sr resolved_def get_def)
  have pn: "str_includes ?c2 ''-Pn''"
    using str_includes_mid [of "flags_of p @ '' ''" "''-Pn''" "[]"]
    by (simp add: command_line_includes)
  show ?thesis
    using run_item_emitted [OF emitted] run_item_history [OF emitted save] fl cmd pn
      get_history_obj_flags
    by blast
qed

theorem retry_success_keeps_base_flags_witness:
  "\<exists>j summary sr.
     fst (run_item ex_env_down 0 ex_params ex_world) = Inr (JObj [(''json'', JObj j)]) \<and>
     get j ''flags'' = JStr ''-T4 -F'' \<and>
     get j ''cmd'' = JStr (command_line ''nmap'' ''-T4 -F -Pn'' ''-oX -'' ''10.0.0.9'') \<and>
     history (snd (run_item ex_env_down 0 ex_params ex_world)) =
       [JSON_stringify (history_obj ''2025-01-01T00:00:00.000Z'' ex_params summary sr)
        @ [CHR 0x0A]] \<and>
     get (history_obj ''2025-01-01T00:00:00.000Z'' ex_params summary sr) ''flags''
       = JStr ''-T4 -F''"
proof -
  have "\<forall>h l. appendFileSync ex_env_down h l = None"
    by (simp add: ex_env_down_def)
  then obtain out w' where run: "run_item ex_env_down 0 ex_params ex_world = (Inr out, w')"
    using run_item_written by blast
  have unreachable: "str_includes ''Nmap done: 0 hosts up'' ''0 hosts up'' \<or>
      str_includes ''Nmap done: 0 hosts up'' ''Failed to resolve'' \<or>
      host_down_match ''Nmap done: 0 hosts up''"
    by simp
  have no_override: "\<not> str_includes (flags_of ex_params) ''-Pn''"
    by (simp add: ex_flags)
  have save: "saveHistory ex_params"
    by (simp add: ex_params_def)
  have clock: "toISOString ex_env_down 0 = ''2025-01-01T00:00:00.000Z''"
    by (simp add: ex_env_down_def)
  show ?thesis
    using retry_success_keeps_base_flags
      [OF ex_down_first ex_down_details unreachable no_override ex_down_second save run] run
    by (simp add: ex_flags ex_command_parts ex_world_def clock) blast
qed

section \<open>The batch\<close>

text \<open>
  Scan failures and parse failures are values: as long as the history file can be
  written, every item of a batch contributes one result.
\<close>

lemma execute_from_all_written:
  assumes "\<forall>h l. appendFileSync e h l = None"
  shows "\<exists>outs'. fst (execute_from e i ps w outs) = Inr (outs @ outs') \<and>
           length outs' = length ps"
proof (induction ps arbitrary: i w outs)
  case Nil
  then show ?case by simp
next
  case (Cons p ps)
  obtain out w1 where step: "run_item e i p w = (Inr out, w1)"
    using run_item_written [OF assms] by blast
  obtain outs' where
    rest: "fst (execute_from e (Suc i) ps w1 (outs @ [out])) = Inr ((outs @ [out]) @ outs')"
    and len: "length outs' = length ps"
    using Cons.IH by blast
  have "fst (execute_from e i (p # ps) w outs) = Inr (outs @ (out # outs'))"
    using step rest by simp
  with len show ?case
    by (intro exI [of _ "out # outs'"]) simp
qed

text \<open>
  X1. When no write to the history file throws, a batch of \<open>n\<close> items returns \<open>n\<close>
  results, whatever the scans and the parses of the items do: their failures are values
  and stop nothing.
\<close>

theorem batch_results_when_history_written:
  assumes "\<forall>h l. appendFileSync e h l = None"
  shows "\<exists>outs. fst (execute e items w) = Inr outs \<and> length outs = length items"
  using execute_from_all_written [OF assms, of 0 items w "[]"] by (simp add: execute_def)

theorem batch_results_when_history_written_witness:
  "\<exists>outs. fst (execute ex_env_refused [ex_params, ex_params, ex_params] ex_world) = Inr outs \<and>
     length outs = 3"
proof -
  have "\<forall>h l. appendFileSync ex_env_refused h l = None"
    by (simp add: ex_env_refused_def)
  from batch_results_when_history_written [OF this, of "[ex_params, ex_params, ex_params]" ex_world]
  show ?thesis by (simp add: numeral_3_eq_3)
qed

text \<open>
  C8. A batch of two items in a world whose history file cannot be written: the write
  for the first item throws, the exception leaves \<^verbatim>\<open>execute\<close>, no result is returned for
  either item, and the second item is never scanned (the two commands are the first
  item's scan and its retry).
\<close>

theorem history_write_failure_aborts_batch:
  "execute ex_env_readonly [ex_params, ex_params] ex_world =
     (Inl (Error ''EACCES: permission denied''),
      \<lparr>commands = [command_line ''nmap'' ''-T4 -F'' ''-oX -'' ''10.0.0.9'',
                   command_line ''nmap'' ''-T4 -F -Pn'' ''-oX -'' ''10.0.0.9''],
       history = []\<rparr>)"
  by (simp add: execute_def run_item_def scan_def runNmap_def summarize_def Let_def
      ex_env_readonly_def ex_env_down_def ex_params_def ex_world_def flags_of_def
      derive_flags_def binary_path_def format_flag_def downMsg_def rejected_def resolved_def
      get_def resiliency_note_def)

section \<open>Writing a value and reading it back\<close>

lemma hex_val_hex_digit: "k < 16 \<Longrightarrow> hex_val (hex_digit k) = Some k"
proof -
  have "\<forall>k\<in>{0..<16}. hex_val (hex_digit k) = Some k"
    by code_simp
  then show "k < 16 \<Longrightarrow> hex_val (hex_digit k) = Some k"
    by simp
qed

lemma unicode_escape_control:
  assumes "(of_char c :: nat) < 32"
  shows "unicode_escape (CHR ''0'') (CHR ''0'') (hex_digit (of_char c div 16))
           (hex_digit (of_char c mod 16)) = Some c"
proof -
  let ?n = "of_char c :: nat"
  have z: "hex_val (CHR ''0'') = Some 0"
    by (simp add: hex_val_def)
  have hi: "hex_val (hex_digit (?n div 16)) = Some (?n div 16)"
    using assms by (intro hex_val_hex_digit) simp
  have lo: "hex_val (hex_digit (?n mod 16)) = Some (?n mod 16)"
    by (intro hex_val_hex_digit) simp
  have "16 * (?n div 16) + ?n mod 16 = ?n"
    by simp
  then show ?thesis
    using assms by (simp add: unicode_escape_def z hi lo)
qed

lemma parse_chars_quote_char:
  "parse_chars (quote_char c @ t) = map_option (\<lambda>(s, r). (c # s, r)) (parse_chars t)"
proof -
  let ?n = "of_char c :: nat"
  have eq: "?n = of_char d \<Longrightarrow> c = d" for d
    by simp
  consider (dq) "?n = 0x22" | (bs) "?n = 0x5C" | (b) "?n = 8" | (t) "?n = 9" | (n) "?n = 10"
    | (f) "?n = 12" | (r) "?n = 13"
    | (u) "?n < 32" "?n \<noteq> 8" "?n \<noteq> 9" "?n \<noteq> 10" "?n \<noteq> 12" "?n \<noteq> 13"
    | (plain) "?n \<noteq> 0x22" "?n \<noteq> 0x5C" "\<not> ?n < 32"
    by linarith
  then show ?thesis
  proof cases
    case dq
    then have "c = CHR 0x22" by (intro eq) simp
    then show ?thesis by (simp add: quote_char_def unescape_def)
  next
    case bs
    then have "c = CHR 0x5C" by (intro eq) simp
    then show ?thesis by (simp add: quote_char_def unescape_def)
  next
    case b
    then have "c = CHR 0x08" by (intro eq) simp
    then show ?thesis by (simp add: quote_char_def unescape_def)
  next
    case t
    then have "c = CHR 0x09" by (intro eq) simp
    then show ?thesis by (simp add: quote_char_def unescape_def)
  next
    case n
    then have "c = CHR 0x0A" by (intro eq) simp
    then show ?thesis by (simp add: quote_char_def unescape_def)
  next
    case f
    then have "c = CHR 0x0C" by (intro eq) simp
    then show ?thesis by (simp add: quote_char_def unescape_def)
  next
    case r
    then have "c = CHR 0x0D" by (intro eq) simp
    then show ?thesis by (simp add: quote_char_def unescape_def)
  next
    case u
    then show ?thesis
      using unicode_escape_control [of c]
      by (simp add: quote_char_def Let_def)
  next
    case plain
    then have "c \<noteq> CHR 0x22" "c \<noteq> CHR 0x5C"
      by auto
    with plain show ?thesis
      by (simp add: quote_char_def Let_def)
  qed
qed

lemma parse_chars_quoted:
  "parse_chars (concat (map quote_char s) @ CHR 0x22 # rest) = Some (s, rest)"
  by (induction s) (simp_all add: parse_chars_quote_char del: parse_chars.simps(2), simp)

lemma digit_char_facts:
  "k < 10 \<Longrightarrow> is_digit (''0123456789'' ! k) \<and> digit_val (''0123456789'' ! k) = k \<and>
     (''0123456789'' ! k = CHR ''0'' \<longrightarrow> k = 0)"
proof -
  have "\<forall>k\<in>{0..<10}. is_digit (''0123456789'' ! k) \<and> digit_val (''0123456789'' ! k) = k \<and>
     (''0123456789'' ! k = CHR ''0'' \<longrightarrow> k = 0)"
    by code_simp
  then show "k < 10 \<Longrightarrow> is_digit (''0123456789'' ! k) \<and> digit_val (''0123456789'' ! k) = k \<and>
     (''0123456789'' ! k = CHR ''0'' \<longrightarrow> k = 0)"
    by simp
qed

lemma decimal_step:
  "decimal n = (if n < 10 then [''0123456789'' ! n]
                else decimal (n div 10) @ [''0123456789'' ! (n mod 10)])"
  by (subst decimal.simps) simp

lemma decimal_nonempty: "decimal n \<noteq> []"
  by (subst decimal_step) simp

lemma decimal_digits: "\<forall>c\<in>set (decimal n). is_digit c"
proof (induction n rule: decimal.induct)
  case (1 n)
  show ?case
  proof (cases "n < 10")
    case True
    then show ?thesis
      using digit_char_facts [of n] by (subst decimal_step) simp
  next
    case False
    then show ?thesis
      using 1 digit_char_facts [of "n mod 10"] by (subst decimal_step) simp
  qed
qed

lemma decimal_value: "foldl (\<lambda>a c. 10 * a + digit_val c) 0 (decimal n) = n"
proof (induction n rule: decimal.induct)
  case (1 n)
  show ?case
  proof (cases "n < 10")
    case True
    then show ?thesis
      using digit_char_facts [of n] by (subst decimal_step) simp
  next
    case False
    then show ?thesis
      using 1 digit_char_facts [of "n mod 10"] by (subst decimal_step) simp
  qed
qed

lemma decimal_leading: "hd (decimal n) = CHR ''0'' \<Longrightarrow> n = 0"
proof (induction n rule: decimal.induct)
  case (1 n)
  show ?case
  proof (cases "n < 10")
    case True
    then show ?thesis
      using "1.prems" digit_char_facts [of n] by (subst (asm) decimal_step) simp
  next
    case False
    then have "hd (decimal n) = hd (decimal (n div 10))"
      by (subst decimal_step) (simp add: decimal_nonempty)
    then have "n div 10 = 0"
      using 1 False by simp
    with False show ?thesis by simp
  qed
qed

lemma decimal_length: "1 < length (decimal n) \<Longrightarrow> 0 < n"
  by (subst (asm) decimal_step) (auto split: if_splits)

lemma follow_not_digit: "follow (c # r) \<Longrightarrow> \<not> is_digit c \<and> c \<noteq> CHR ''.'' \<and> c \<noteq> CHR ''e'' \<and> c \<noteq> CHR ''E''"
  by (auto simp: follow_def is_digit_def is_ws_def)

lemma take_digits:
  "follow rest \<Longrightarrow> takeWhile is_digit (decimal n @ rest) = decimal n \<and>
     dropWhile is_digit (decimal n @ rest) = rest"
  using decimal_digits [of n] follow_not_digit
  by (cases rest) (simp_all add: takeWhile_append2 dropWhile_append2)

lemma parse_number_text:
  assumes "follow rest"
  shows "parse_number (number_text i @ rest) = Some (JNum i, rest)"
proof -
  have lead: "\<not> (hd (decimal n) = CHR ''0'' \<and> 1 < length (decimal n))" for n
    using decimal_leading [of n] decimal_length [of n] by auto
  have tail: "\<not> (rest \<noteq> [] \<and> (hd rest = CHR ''.'' \<or> hd rest = CHR ''e'' \<or> hd rest = CHR ''E''))"
    using assms follow_not_digit by (cases rest) auto
  have nominus: "hd (decimal n) \<noteq> CHR ''-''" for n
    using decimal_digits [of n] decimal_nonempty [of n]
    by (cases "decimal n") (auto simp: is_digit_def)
  show ?thesis
  proof (cases "i < 0")
    case True
    then show ?thesis
      using take_digits [OF assms, of "nat (- i)"] lead [of "nat (- i)"] tail
        decimal_nonempty [of "nat (- i)"]
      by (simp add: parse_number_def number_text_def Let_def decimal_value)
  next
    case False
    have "decimal (nat i) @ rest \<noteq> []"
      by (simp add: decimal_nonempty)
    moreover have "hd (decimal (nat i) @ rest) \<noteq> CHR ''-''"
      using nominus [of "nat i"] by (simp add: decimal_nonempty)
    ultimately show ?thesis
      using False take_digits [OF assms, of "nat i"] lead [of "nat i"] tail
        decimal_nonempty [of "nat i"]
      by (simp add: parse_number_def number_text_def Let_def decimal_value)
  qed
qed

lemma join_Cons: "join sep (x # xs) = (if xs = [] then x else x @ sep @ join sep xs)"
  by (cases xs) simp_all

lemma skip_ws_Cons: "\<not> is_ws c \<Longrightarrow> skip_ws (c # cs) = c # cs"
  by (simp add: skip_ws_def)

lemma number_text_start:
  "\<exists>c cs. number_text i = c # cs \<and> (is_digit c \<or> c = CHR ''-'')"
  using decimal_digits [of "nat i"] decimal_nonempty [of "nat i"]
  by (cases "decimal (nat i)") (auto simp: number_text_def)

lemma json_text_start:
  "\<exists>c cs. json_text v = c # cs \<and> \<not> is_ws c \<and> c \<noteq> CHR '']'' \<and> c \<noteq> CHR ''}''"
proof (cases v)
  case (JNum i)
  then show ?thesis
    using number_text_start [of i] by (auto simp: is_digit_def is_ws_def)
qed (auto simp: is_ws_def QuoteJSONString_def)

lemma json_texts_Nil: "json_texts xs = [] \<longleftrightarrow> xs = []"
  by (cases xs) simp_all

lemma members_Nil: "json_member_texts kvs = [] \<Longrightarrow> norm_members kvs = []"
  by (induction kvs) (auto split: if_splits)

lemma join_texts_start:
  "xs \<noteq> [] \<Longrightarrow>
     \<exists>c cs. join '','' (json_texts xs) = c # cs \<and> \<not> is_ws c \<and> c \<noteq> CHR '']''"
proof (cases xs)
  case (Cons x ys)
  obtain c cs where "json_text x = c # cs" "\<not> is_ws c" "c \<noteq> CHR '']''"
    using json_text_start [of x] by blast
  then show ?thesis
    by (simp add: Cons join_Cons)
qed simp

lemma join_members_start:
  "json_member_texts kvs \<noteq> [] \<Longrightarrow>
     \<exists>cs. join '','' (json_member_texts kvs) = CHR 0x22 # cs"
proof (induction kvs)
  case (Cons kv kvs)
  obtain k v where kv: "kv = (k, v)" by (cases kv)
  show ?case
    using Cons by (auto simp: kv join_Cons QuoteJSONString_def)
qed simp

lemma parse_value_number:
  assumes "follow rest"
  shows "parse_value (Suc n) (number_text i @ rest) = Some (JNum i, rest)"
proof -
  obtain c cs where start: "number_text i = c # cs" "is_digit c \<or> c = CHR ''-''"
    using number_text_start [of i] by blast
  have "\<not> is_ws c" "c \<noteq> CHR ''{''" "c \<noteq> CHR ''[''" "c \<noteq> CHR 0x22" "c \<noteq> CHR ''n''"
    "c \<noteq> CHR ''t''" "c \<noteq> CHR ''f''"
    using start(2) by (auto simp: is_digit_def is_ws_def)
  then have "parse_value (Suc n) (c # cs @ rest) = parse_number (c # cs @ rest)"
    by (simp add: skip_ws_Cons)
  then show ?thesis
    using parse_number_text [OF assms, of i] start(1) by simp
qed

lemma follow_simps:
  "follow (CHR '','' # r)" "follow (CHR '']'' # r)" "follow (CHR ''}'' # r)"
  by (simp_all add: follow_def)

lemma ws_simps:
  "\<not> is_ws (CHR '','')" "\<not> is_ws (CHR '']'')" "\<not> is_ws (CHR ''}'')" "\<not> is_ws (CHR '':'')"
  "\<not> is_ws (CHR 0x22)" "\<not> is_ws (CHR ''['')" "\<not> is_ws (CHR ''{'')"
  "\<not> is_ws (CHR ''n'')" "\<not> is_ws (CHR ''t'')" "\<not> is_ws (CHR ''f'')"
  by (simp_all add: is_ws_def)

lemma roundtrip:
  "wf_json v \<Longrightarrow> follow rest \<Longrightarrow> length (json_text v) \<le> n \<Longrightarrow>
     parse_value n (json_text v @ rest) = Some (json_norm v, rest)"
  and "wf_list xs \<Longrightarrow> xs \<noteq> [] \<Longrightarrow> length (join '','' (json_texts xs)) < n \<Longrightarrow>
     parse_elements n (join '','' (json_texts xs) @ CHR '']'' # rest) = Some (norm_list xs, rest)"
  and "wf_members kvs \<Longrightarrow> distinct (map fst kvs) \<Longrightarrow> fst ` set acc \<inter> fst ` set kvs = {} \<Longrightarrow>
     json_member_texts kvs \<noteq> [] \<Longrightarrow> length (join '','' (json_member_texts kvs)) < n \<Longrightarrow>
     parse_members n acc (join '','' (json_member_texts kvs) @ CHR ''}'' # rest)
       = Some (acc @ norm_members kvs, rest)"
proof (induction v and xs and kvs arbitrary: n rest and n rest and n acc rest
    rule: json_text_json_texts_json_member_texts.induct)
  case 1
  then obtain m where "n = Suc m" by (cases n) auto
  then show ?case by (simp add: skip_ws_Cons ws_simps)
next
  case 2
  then obtain m where "n = Suc m" by (cases n) auto
  then show ?case by (simp add: skip_ws_Cons ws_simps)
next
  case (3 b)
  then obtain m where "n = Suc m" by (cases n) (auto split: if_splits)
  then show ?case by (simp add: skip_ws_Cons ws_simps)
next
  case (4 i)
  have "number_text i \<noteq> []"
    using number_text_start [of i] by auto
  with 4 obtain m where "n = Suc m" by (cases n) auto
  then show ?case
    using parse_value_number [OF \<open>follow rest\<close>] by simp
next
  case (5 s)
  then obtain m where "n = Suc m" by (cases n) (auto simp: QuoteJSONString_def)
  then show ?case
    by (simp add: QuoteJSONString_def skip_ws_Cons ws_simps parse_chars_quoted)
next
  case (6 xs)
  let ?E = "join '','' (json_texts xs)"
  from "6.prems" obtain m where n: "n = Suc m" and len: "length ?E < m"
    by (cases n) auto
  show ?case
  proof (cases "xs = []")
    case True
    then show ?thesis
      by (simp add: n skip_ws_Cons ws_simps)
  next
    case False
    obtain c cs where start: "?E = c # cs" "\<not> is_ws c" "c \<noteq> CHR '']''"
      using join_texts_start [OF False] by blast
    have "parse_elements m (?E @ CHR '']'' # rest) = Some (norm_list xs, rest)"
      using "6.IH" [of m rest] "6.prems" False len by simp
    then show ?thesis
      using start by (simp add: n skip_ws_Cons ws_simps)
  qed
next
  case (7 kvs)
  let ?M = "join '','' (json_member_texts kvs)"
  from "7.prems" obtain m where n: "n = Suc m" and len: "length ?M < m"
    by (cases n) auto
  show ?case
  proof (cases "json_member_texts kvs = []")
    case True
    then show ?thesis
      by (simp add: n skip_ws_Cons ws_simps members_Nil)
  next
    case False
    obtain cs where start: "?M = CHR 0x22 # cs"
      using join_members_start [OF False] by blast
    have "parse_members m [] (?M @ CHR ''}'' # rest) = Some ([] @ norm_members kvs, rest)"
      using "7.IH" [of "[]" m rest] "7.prems" False len by simp
    then show ?thesis
      using start by (simp add: n skip_ws_Cons ws_simps)
  qed
next
  case 8
  then show ?case by simp
next
  case (9 x xs)
  from "9.prems" obtain m where n: "n = Suc m" by (cases n) auto
  show ?case
  proof (cases "xs = []")
    case True
    have "parse_value m (json_text x @ CHR '']'' # rest) = Some (json_norm x, CHR '']'' # rest)"
      using "9.IH"(1) [of "CHR '']'' # rest" m] "9.prems" True
      by (simp add: n follow_simps)
    then show ?thesis
      using True by (simp add: n skip_ws_Cons ws_simps)
  next
    case False
    let ?E = "join '','' (json_texts xs)"
    have texts: "json_texts xs \<noteq> []"
      using False by (simp add: json_texts_Nil)
    have len: "length (json_text x) \<le> m" "length ?E < m"
      using "9.prems" texts by (simp_all add: n join_Cons)
    have first: "parse_value m (json_text x @ CHR '','' # ?E @ CHR '']'' # rest)
        = Some (json_norm x, CHR '','' # ?E @ CHR '']'' # rest)"
      using "9.IH"(1) [of "CHR '','' # ?E @ CHR '']'' # rest" m] "9.prems" len
      by (simp add: follow_simps)
    have more: "parse_elements m (?E @ CHR '']'' # rest) = Some (norm_list xs, rest)"
      using "9.IH"(2) [of m rest] "9.prems" False len by simp
    show ?thesis
      using first more texts by (simp add: n join_Cons skip_ws_Cons ws_simps)
  qed
next
  case 10
  then show ?case by simp
next
  case (11 k v kvs)
  show ?case
  proof (cases "v = JUndefined")
    case True
    then show ?thesis
      using "11.IH"(1) [of acc n rest] "11.prems" by auto
  next
    case False
    from "11.prems" obtain m where n: "n = Suc m" by (cases n) auto
    let ?M = "join '','' (json_member_texts kvs)"
    have fresh: "map_of acc k = None"
      using "11.prems"(3) by (auto simp: map_of_eq_None_iff)
    have acc': "set_prop acc k (json_norm v) = acc @ [(k, json_norm v)]"
      using fresh by (rule set_prop_fresh)
    have key: "parse_chars (concat (map quote_char k) @ CHR 0x22 # t) = Some (k, t)" for t
      by (rule parse_chars_quoted)
    show ?thesis
    proof (cases "json_member_texts kvs = []")
      case True
      have len: "length (json_text v) \<le> m"
        using "11.prems" False True by (simp add: n)
      have val: "parse_value m (json_text v @ CHR ''}'' # rest)
          = Some (json_norm v, CHR ''}'' # rest)"
        using "11.IH"(2) [OF False, of "CHR ''}'' # rest" m] "11.prems" len
        by (simp add: follow_simps)
      show ?thesis
        using False True val key acc'
        by (simp add: n QuoteJSONString_def skip_ws_Cons ws_simps members_Nil)
    next
      case more: False
      have len: "length (json_text v) \<le> m" "length ?M < m"
        using "11.prems" False more by (simp_all add: n join_Cons)
      have val: "parse_value m (json_text v @ CHR '','' # ?M @ CHR ''}'' # rest)
          = Some (json_norm v, CHR '','' # ?M @ CHR ''}'' # rest)"
        using "11.IH"(2) [OF False, of "CHR '','' # ?M @ CHR ''}'' # rest" m] "11.prems" len
        by (simp add: follow_simps)
      have disj: "fst ` set (acc @ [(k, json_norm v)]) \<inter> fst ` set kvs = {}"
        using "11.prems"(2,3) by auto
      have rest: "parse_members m (acc @ [(k, json_norm v)]) (?M @ CHR ''}'' # rest)
          = Some ((acc @ [(k, json_norm v)]) @ norm_members kvs, rest)"
        using "11.IH"(3) [OF False, of "acc @ [(k, json_norm v)]" m rest] "11.prems" disj more len
        by simp
      show ?thesis
        using False more val key acc' rest
        by (simp add: n join_Cons QuoteJSONString_def skip_ws_Cons ws_simps)
    qed
  qed
qed

lemma JSON_parse_line:
  assumes "distinct (map fst ob)" and "wf_members ob"
  shows "JSON_parse (JSON_stringify ob @ [CHR 0x0A]) = Some (JObj (norm_members ob))"
proof -
  have "parse_value (length (JSON_stringify ob @ [CHR 0x0A])) (json_text (JObj ob) @ [CHR 0x0A])
      = Some (json_norm (JObj ob), [CHR 0x0A])"
    using assms by (intro roundtrip(1)) (simp_all add: follow_def is_ws_def JSON_stringify_def)
  then show ?thesis
    by (simp add: JSON_parse_def JSON_stringify_def skip_ws_def is_ws_def)
qed

text \<open>One line.\<close>

lemma hex_digit_not_newline: "hex_digit k \<noteq> CHR 0x0A"
proof -
  have "hex_digit k \<in> set ''0123456789abcdef''"
    unfolding hex_digit_def by (rule nth_mem) simp
  then show ?thesis by auto
qed

lemma quote_char_one_line: "CHR 0x0A \<notin> set (quote_char c)"
  using hex_digit_not_newline [of "of_char c div 16"] hex_digit_not_newline [of "of_char c mod 16"]
  by (auto simp: quote_char_def Let_def)

lemma quoted_one_line: "CHR 0x0A \<notin> set (QuoteJSONString s)"
  by (auto simp: QuoteJSONString_def quote_char_one_line)

lemma digit_not_newline: "is_digit c \<Longrightarrow> c \<noteq> CHR 0x0A"
  by (auto simp: is_digit_def)

lemma number_one_line: "CHR 0x0A \<notin> set (number_text i)"
  using decimal_digits digit_not_newline by (auto simp: number_text_def)

lemma set_join: "set (join sep xs) \<subseteq> set sep \<union> \<Union> (set ` set xs)"
  by (induction sep xs rule: join.induct) auto

lemma json_text_one_line:
  "CHR 0x0A \<notin> set (json_text v)"
  and "\<forall>t\<in>set (json_texts xs). CHR 0x0A \<notin> set t"
  and "\<forall>t\<in>set (json_member_texts kvs). CHR 0x0A \<notin> set t"
proof (induction v and xs and kvs rule: json_text_json_texts_json_member_texts.induct)
  case (6 xs)
  then show ?case
    using set_join [of "'',''" "json_texts xs"] by auto
next
  case (7 kvs)
  then show ?case
    using set_join [of "'',''" "json_member_texts kvs"] by auto
qed (auto simp: quoted_one_line number_one_line)

text \<open>Well-formedness through the extractor.\<close>

lemma bind_Inr: "bind m f = Inr y \<longleftrightarrow> (\<exists>x. m = Inr x \<and> f x = Inr y)"
  by (cases m) (simp_all add: bind_def)

lemma wf_members_map_of: "wf_members kvs \<Longrightarrow> map_of kvs k = Some v \<Longrightarrow> wf_json v"
  by (induction kvs) (auto split: if_splits)

lemma wf_get: "wf_members kvs \<Longrightarrow> wf_json (get kvs k)"
  by (cases "map_of kvs k") (auto simp: get_def dest: wf_members_map_of)

lemma wf_read_prop: "wf_json v \<Longrightarrow> read_prop v k = Inr x \<Longrightarrow> wf_json x"
  by (cases v) (auto simp: wf_get)

lemma wf_attr: "wf_json v \<Longrightarrow> attr v a = Inr x \<Longrightarrow> wf_json x"
  by (auto simp: attr_def bind_Inr dest: wf_read_prop)

lemma wf_opt_attr: "wf_json v \<Longrightarrow> opt_attr v f a = Inr x \<Longrightarrow> wf_json x"
  by (auto simp: opt_attr_def bind_Inr split: if_splits dest: wf_read_prop wf_attr)

lemma wf_or_else: "wf_json a \<Longrightarrow> wf_json d \<Longrightarrow> wf_json (or_else a d)"
  by (simp add: or_else_def)

lemma wf_filter_open: "wf_list ps \<Longrightarrow> filter_open ps = Inr r \<Longrightarrow> wf_list r"
  by (induction ps arbitrary: r) (auto simp: bind_Inr split: if_splits)

lemma wf_open_ports: "wf_json ports \<Longrightarrow> open_ports ports = Inr ops \<Longrightarrow> wf_list ops"
  by (cases ports) (auto simp: open_ports_def bind_Inr wf_filter_open split: if_splits)

lemma wf_port_entry: "wf_json p \<Longrightarrow> port_entry p = Inr pe \<Longrightarrow> wf_json pe"
proof -
  assume p: "wf_json p" and pe: "port_entry p = Inr pe"
  from pe obtain pid nm pr ve ex where
    "attr p ''portid'' = Inr pid" "opt_attr p ''service'' ''name'' = Inr nm"
    "opt_attr p ''service'' ''product'' = Inr pr" "opt_attr p ''service'' ''version'' = Inr ve"
    "opt_attr p ''service'' ''extrainfo'' = Inr ex"
    and shape: "pe = JObj [(''port'', pid),
                  (''service'', or_else nm (JStr [])),
                  (''product'', or_else pr (JStr [])),
                  (''version'', or_else ve (JStr [])),
                  (''extra'', or_else ex (JStr []))]"
    unfolding port_entry_def bind_Inr by auto
  then have "wf_json pid" "wf_json nm" "wf_json pr" "wf_json ve" "wf_json ex"
    using p wf_attr wf_opt_attr by blast+
  then show "wf_json pe"
    by (simp add: shape wf_or_else)
qed

lemma wf_map_exn:
  "(\<And>x y. wf_json x \<Longrightarrow> f x = Inr y \<Longrightarrow> wf_json y) \<Longrightarrow> wf_list xs \<Longrightarrow>
     map_exn f xs = Inr ys \<Longrightarrow> wf_list ys"
  by (induction xs arbitrary: ys) (auto simp: bind_Inr)

lemma wf_script_finding: "wf_json p \<Longrightarrow> wf_json s \<Longrightarrow> script_finding p s = Inr y \<Longrightarrow> wf_json y"
  by (auto simp: script_finding_def bind_Inr dest: wf_attr)

lemma wf_port_findings: "wf_json p \<Longrightarrow> port_findings p = Inr fs \<Longrightarrow> wf_list fs"
proof -
  assume p: "wf_json p" and fs: "port_findings p = Inr fs"
  obtain sc where sc: "read_prop p ''script'' = Inr sc"
    using fs by (auto simp: port_findings_def bind_Inr)
  have wsc: "wf_json sc"
    using wf_read_prop [OF p sc] .
  show "wf_list fs"
  proof (cases "truthy sc")
    case False
    with fs sc show ?thesis
      by (simp add: port_findings_def bind_Inr)
  next
    case True
    have scripts: "wf_list (case sc of JArr ss \<Rightarrow> ss | _ \<Rightarrow> [sc])"
      using wsc by (cases sc) auto
    have run: "map_exn (script_finding p) (case sc of JArr ss \<Rightarrow> ss | _ \<Rightarrow> [sc]) = Inr fs"
      using fs sc True by (simp add: port_findings_def bind_Inr)
    show ?thesis
    proof (rule wf_map_exn [OF _ scripts run])
      fix x y
      assume "wf_json x" "script_finding p x = Inr y"
      then show "wf_json y"
        using wf_script_finding [OF p] by simp
    qed
  qed
qed

lemma wf_list_append: "wf_list a \<Longrightarrow> wf_list b \<Longrightarrow> wf_list (a @ b)"
  by (induction a) auto

lemma wf_list_concat: "\<forall>fs\<in>set fss. wf_list fs \<Longrightarrow> wf_list (concat fss)"
  by (induction fss) (auto intro: wf_list_append)

lemma wf_map_exn_lists:
  "(\<And>x y. wf_json x \<Longrightarrow> f x = Inr y \<Longrightarrow> wf_list y) \<Longrightarrow> wf_list xs \<Longrightarrow>
     map_exn f xs = Inr ys \<Longrightarrow> \<forall>y\<in>set ys. wf_list y"
  by (induction xs arbitrary: ys) (auto simp: bind_Inr)

lemma wf_nse_results: "wf_list ops \<Longrightarrow> nse_results ops = Inr fs \<Longrightarrow> wf_list fs"
proof -
  assume ops: "wf_list ops" and fs: "nse_results ops = Inr fs"
  from fs obtain fss where run: "map_exn port_findings ops = Inr fss" and cat: "fs = concat fss"
    by (auto simp: nse_results_def bind_Inr)
  have "\<forall>y\<in>set fss. wf_list y"
  proof (rule wf_map_exn_lists [OF _ ops run])
    fix x y
    assume "wf_json x" "port_findings x = Inr y"
    then show "wf_list y" by (rule wf_port_findings)
  qed
  then show "wf_list fs"
    unfolding cat by (rule wf_list_concat)
qed

lemma wf_summary_body: "wf_json t \<Longrightarrow> summary_body t = Inr s \<Longrightarrow> wf_json s"
proof -
  assume t: "wf_json t" and s: "summary_body t = Inr s"
  from s obtain run host st ad ports ops pl ns where
    r: "read_prop t ''nmaprun'' = Inr run" and h: "read_prop run ''host'' = Inr host"
    and st: "opt_attr host ''status'' ''state'' = Inr st"
    and ad: "opt_attr host ''address'' ''addr'' = Inr ad"
    and po: "host_ports host = Inr ports" and op: "open_ports ports = Inr ops"
    and pl: "map_exn port_entry ops = Inr pl" and ns: "nse_results ops = Inr ns"
    and s': "s = JObj [(''address'', or_else ad (JStr ''unknown'')),
                  (''status'', or_else st (JStr ''unknown'')),
                  (''openPorts'', JArr pl),
                  (''totalOpen'', JNum (int (length ops))),
                  (''vulns'', JArr ns)]"
    unfolding summary_body_def bind_Inr by auto
  have host: "wf_json host"
    using wf_read_prop [OF wf_read_prop [OF t r] h] .
  have ports: "wf_json ports"
    using po host by (auto simp: host_ports_def bind_Inr split: if_splits dest: wf_read_prop)
  have ops: "wf_list ops"
    using wf_open_ports [OF ports op] .
  have entries: "wf_list pl"
  proof (rule wf_map_exn [OF _ ops pl])
    fix x y
    assume "wf_json x" "port_entry x = Inr y"
    then show "wf_json y" by (rule wf_port_entry)
  qed
  have "wf_list ns"
    using wf_nse_results [OF ops ns] .
  with entries show "wf_json s"
    using wf_opt_attr [OF host st] wf_opt_attr [OF host ad]
    by (simp add: s' wf_or_else)
qed

lemma wf_makeSummary: "wf_json t \<Longrightarrow> wf_json (makeSummary t)"
  by (cases "summary_body t") (auto simp: makeSummary_def error_marker_def dest: wf_summary_body)

lemma wf_summarize:
  assumes "\<forall>txt tree. parseStringPromise e txt = Inr tree \<longrightarrow> wf_json tree"
  shows "wf_json (snd (summarize e p sr)) \<and> snd (summarize e p sr) \<noteq> JUndefined"
proof -
  have defined: "makeSummary t \<noteq> JUndefined" for t
    using makeSummary_shape [of t] truthy_shapes [of "makeSummary t"] by auto
  show ?thesis
  proof (cases "get sr ''output''")
    case (JStr out)
    show ?thesis
    proof (cases "smartResult p \<and> \<not> truthy (get sr ''error'') \<and> outputFormat p = ''xml''")
      case True
      show ?thesis
      proof (cases "parseStringPromise e out")
        case (Inl d)
        then show ?thesis
          using JStr True by (simp add: summarize_def error_marker_def)
      next
        case (Inr tree)
        then show ?thesis
          using JStr True assms wf_makeSummary [of tree] defined [of tree]
          by (simp add: summarize_def)
      qed
    next
      case False
      then show ?thesis
        using JStr by (auto simp: summarize_def)
    qed
  qed (simp_all add: summarize_def)
qed

section \<open>The history line, read back\<close>

lemma json_norm_clean:
  "no_undefined v \<Longrightarrow> json_norm v = v"
  and norm_list_clean: "no_undefined_list xs \<Longrightarrow> norm_list xs = xs"
  and norm_members_clean: "no_undefined_members kvs \<Longrightarrow> norm_members kvs = kvs"
  by (induction v and xs and kvs rule: json_norm_norm_list_norm_members.induct) auto

lemma norm_members_append: "norm_members (a @ b) = norm_members a @ norm_members b"
  by (induction a) auto

lemma wf_members_append: "wf_members (a @ b) \<longleftrightarrow> wf_members a \<and> wf_members b"
  by (induction a) auto

lemma get_Cons: "get ((k', v) # ob) k = (if k = k' then v else get ob k)"
  by (simp add: get_def)

text \<open>The history object: five properties, then \<^verbatim>\<open>error\<close> and \<^verbatim>\<open>resiliency\<close> when they apply.\<close>

lemma history_obj_shape:
  "\<exists>extra. history_obj ts p s (fst (scan e p w)) =
       [(''timestamp'', JStr ts), (''target'', JStr (target p)), (''flags'', JStr (flags_of p)),
        (''format'', JStr (outputFormat p)), (''summary'', s)] @ extra \<and>
     distinct (map fst extra) \<and> fst ` set extra \<subseteq> {''error'', ''resiliency''} \<and>
     wf_members extra \<and> no_undefined_members extra \<and>
     (get (fst (scan e p w)) ''error'' = JBool True \<longrightarrow>
        get extra ''error'' = JObj (fst (scan e p w)))"
proof (rule scan_cases [of e p w])
  fix c out
  assume "fst (scan e p w) = resolved p (flags_of p) c out"
  then show ?thesis
    by (intro exI [of _ "[]"])
       (simp add: history_obj_def assign_def get_def resolved_def)
next
  fix c msg out serr
  assume sr: "fst (scan e p w) = rejected c msg out serr"
  show ?thesis
    by (intro exI [of _ "[(''error'', JObj (rejected c msg out serr))]"])
       (simp add: sr history_obj_def assign_def get_def rejected_def)
next
  fix c out c0 msg0 out0 serr0
  assume sr: "fst (scan e p w) =
         resolved p (flags_of p) c out @
         [(''resiliency'',
           resiliency_note ''First scan failed, retried with -Pn.''
             (rejected c0 msg0 out0 serr0))]"
  show ?thesis
    by (intro exI [of _ "[(''resiliency'',
           resiliency_note ''First scan failed, retried with -Pn.''
             (rejected c0 msg0 out0 serr0))]"])
       (simp add: sr history_obj_def assign_def get_def resolved_def rejected_def
          resiliency_note_def)
next
  fix c msg out serr c0 msg0 out0 serr0
  assume sr: "fst (scan e p w) =
         rejected c msg out serr @
         [(''resiliency'',
           resiliency_note ''Scan failed even after retrying with -Pn.''
             (rejected c0 msg0 out0 serr0))]"
  show ?thesis
    by (intro exI [of _ "[(''error'', JObj (rejected c msg out serr @
         [(''resiliency'',
           resiliency_note ''Scan failed even after retrying with -Pn.''
             (rejected c0 msg0 out0 serr0))])),
         (''resiliency'',
           resiliency_note ''Scan failed even after retrying with -Pn.''
             (rejected c0 msg0 out0 serr0))]"])
       (simp add: sr history_obj_def assign_def get_def rejected_def resiliency_note_def)
qed

text \<open>The line of an item parses to the history object, less its undefined values.\<close>

lemma history_line_parses:
  assumes emitted: "run_item e i p w = (Inr out, w')"
    and save: "saveHistory p"
    and trees: "\<forall>payload tree. parseStringPromise e payload = Inr tree \<longrightarrow> wf_json tree"
  shows "\<exists>extra.
      history w' = history w @
        [JSON_stringify (history_obj (toISOString e i) p
           (snd (summarize e p (fst (scan e p w)))) (fst (scan e p w))) @ [CHR 0x0A]] \<and>
      JSON_parse (JSON_stringify (history_obj (toISOString e i) p
           (snd (summarize e p (fst (scan e p w)))) (fst (scan e p w))) @ [CHR 0x0A]) =
        Some (JObj ([(''timestamp'', JStr (toISOString e i)), (''target'', JStr (target p)),
                     (''flags'', JStr (flags_of p)), (''format'', JStr (outputFormat p)),
                     (''summary'', json_norm (snd (summarize e p (fst (scan e p w)))))] @ extra)) \<and>
      fst ` set extra \<subseteq> {''error'', ''resiliency''} \<and>
      (get (fst (scan e p w)) ''error'' = JBool True \<longrightarrow>
         get extra ''error'' = JObj (fst (scan e p w)))"
proof -
  let ?sr = "fst (scan e p w)"
  let ?s = "snd (summarize e p ?sr)"
  let ?h = "history_obj (toISOString e i) p ?s ?sr"
  let ?base = "[(''timestamp'', JStr (toISOString e i)), (''target'', JStr (target p)),
        (''flags'', JStr (flags_of p)), (''format'', JStr (outputFormat p)), (''summary'', ?s)]"
  obtain extra where h: "?h = ?base @ extra"
    and d: "distinct (map fst extra)" and keys: "fst ` set extra \<subseteq> {''error'', ''resiliency''}"
    and wf: "wf_members extra" and clean: "no_undefined_members extra"
    and err: "get ?sr ''error'' = JBool True \<longrightarrow> get extra ''error'' = JObj ?sr"
    using history_obj_shape [of "toISOString e i" p ?s e w] by blast
  have s: "wf_json ?s" "?s \<noteq> JUndefined"
    using wf_summarize [OF trees, of p ?sr] by simp_all
  have dist: "distinct (map fst ?h)"
    using d keys by (auto simp: h)
  have wfh: "wf_members ?h"
    using wf s by (simp add: h)
  have norm: "norm_members ?h =
      [(''timestamp'', JStr (toISOString e i)), (''target'', JStr (target p)),
       (''flags'', JStr (flags_of p)), (''format'', JStr (outputFormat p)),
       (''summary'', json_norm ?s)] @ extra"
    using s norm_members_clean [OF clean] by (simp add: h norm_members_append)
  have "JSON_parse (JSON_stringify ?h @ [CHR 0x0A]) = Some (JObj (norm_members ?h))"
    using JSON_parse_line [OF dist wfh] .
  then show ?thesis
    using run_item_history [OF emitted save] norm keys err by (intro exI [of _ extra]) simp
qed

text \<open>
  C7 (amended). The line appended for an item is one line: it ends with the line feed and
  holds no other. Parsed back, it gives the timestamp, the target, the flags and the
  format of the record exactly, and the failure payload exactly when the outcome was a
  failure. The summary comes back as it was written, which is the summary itself when no
  value in it is \<^verbatim>\<open>undefined\<close>, and otherwise the summary without its undefined
  properties. The trees of xml2js are taken to be objects in which no key repeats.
\<close>

theorem history_line_round_trip:
  assumes emitted: "run_item e i p w = (Inr out, w')"
    and save: "saveHistory p"
    and trees: "\<forall>payload tree. parseStringPromise e payload = Inr tree \<longrightarrow> wf_json tree"
  shows "\<exists>line. history w' = history w @ [line] \<and>
      last line = CHR 0x0A \<and> CHR 0x0A \<notin> set (butlast line) \<and>
      parsed_field line ''timestamp'' = Some (JStr (toISOString e i)) \<and>
      parsed_field line ''target'' = Some (JStr (target p)) \<and>
      parsed_field line ''flags'' = Some (JStr (flags_of p)) \<and>
      parsed_field line ''format'' = Some (JStr (outputFormat p)) \<and>
      parsed_field line ''summary'' = Some (json_norm (snd (summarize e p (fst (scan e p w))))) \<and>
      (no_undefined (snd (summarize e p (fst (scan e p w)))) \<longrightarrow>
         parsed_field line ''summary'' = Some (snd (summarize e p (fst (scan e p w))))) \<and>
      (get (fst (scan e p w)) ''error'' = JBool True \<longrightarrow>
         parsed_field line ''error'' = Some (JObj (fst (scan e p w))))"
proof -
  let ?sr = "fst (scan e p w)"
  let ?s = "snd (summarize e p ?sr)"
  let ?text = "JSON_stringify (history_obj (toISOString e i) p ?s ?sr)"
  obtain extra where line: "history w' = history w @ [?text @ [CHR 0x0A]]"
    and parsed: "JSON_parse (?text @ [CHR 0x0A]) =
        Some (JObj ([(''timestamp'', JStr (toISOString e i)), (''target'', JStr (target p)),
                     (''flags'', JStr (flags_of p)), (''format'', JStr (outputFormat p)),
                     (''summary'', json_norm ?s)] @ extra))"
    and keys: "fst ` set extra \<subseteq> {''error'', ''resiliency''}"
    and err: "get ?sr ''error'' = JBool True \<longrightarrow> get extra ''error'' = JObj ?sr"
    using history_line_parses [OF emitted save trees] by blast
  have one: "CHR 0x0A \<notin> set ?text"
    unfolding JSON_stringify_def by (rule json_text_one_line)
  have field: "parsed_field (?text @ [CHR 0x0A]) k =
      Some (get ([(''timestamp'', JStr (toISOString e i)), (''target'', JStr (target p)),
                  (''flags'', JStr (flags_of p)), (''format'', JStr (outputFormat p)),
                  (''summary'', json_norm ?s)] @ extra) k)" for k
    by (simp add: parsed_field_def parsed)
  have "parsed_field (?text @ [CHR 0x0A]) ''error'' = Some (get extra ''error'')"
    unfolding field by (simp add: get_Cons)
  moreover have "no_undefined ?s \<longrightarrow> json_norm ?s = ?s"
    using json_norm_clean by blast
  ultimately show ?thesis
    using line one err
    by (intro exI [of _ "?text @ [CHR 0x0A]"]) (simp add: field get_Cons)
qed

lemma ex_noid_scan:
  "scan ex_env_noid ex_params ex_world =
     (resolved ex_params ''-T4 -F'' (command_line ''nmap'' ''-T4 -F'' ''-oX -'' ''10.0.0.9'')
        ''<nmaprun/>'',
      \<lparr>commands = [command_line ''nmap'' ''-T4 -F'' ''-oX -'' ''10.0.0.9''], history = []\<rparr>)"
  by (simp add: scan_def runNmap_def Let_def ex_env_noid_def ex_world_def ex_flags
      ex_command_parts)

lemma ex_noid_summary:
  "snd (summarize ex_env_noid ex_params
          (resolved ex_params ''-T4 -F'' (command_line ''nmap'' ''-T4 -F'' ''-oX -'' ''10.0.0.9'')
             ''<nmaprun/>'')) =
     JObj [(''address'', JStr ''10.0.0.9''), (''status'', JStr ''up''),
           (''openPorts'',
            JArr [JObj [(''port'', JUndefined), (''service'', JStr []), (''product'', JStr []),
                        (''version'', JStr []), (''extra'', JStr [])]]),
           (''totalOpen'', JNum 1), (''vulns'', JArr [])]"
  by (simp add: summarize_def resolved_def get_def ex_params_def ex_env_noid_def
      makeSummary_def summary_body_def ex_doc_noid_def ex_host_def opt_attr_def attr_def
      host_ports_def open_ports_def port_entry_def port_findings_def nse_results_def
      bind_def or_else_def)

lemma ex_trees:
  "\<forall>payload tree. parseStringPromise ex_env_noid payload = Inr tree \<longrightarrow> wf_json tree"
  "\<forall>payload tree. parseStringPromise ex_env_down payload = Inr tree \<longrightarrow> wf_json tree"
  "\<forall>payload tree. parseStringPromise ex_env_refused payload = Inr tree \<longrightarrow> wf_json tree"
  by (auto simp: ex_env_noid_def ex_env_down_def ex_env_refused_def ex_doc_noid_def ex_doc_def
      ex_host_def ex_port_def split: if_splits)

lemma ex_written:
  "\<forall>h l. appendFileSync ex_env_noid h l = None"
  "\<forall>h l. appendFileSync ex_env_down h l = None"
  "\<forall>h l. appendFileSync ex_env_refused h l = None"
  by (simp_all add: ex_env_noid_def ex_env_down_def ex_env_refused_def)


theorem history_line_round_trip_witness:
  "(\<exists>line. history (snd (run_item ex_env_down 0 ex_params ex_world)) = [line] \<and>
      parsed_field line ''timestamp'' = Some (JStr ''2025-01-01T00:00:00.000Z'') \<and>
      parsed_field line ''target'' = Some (JStr ''10.0.0.9'') \<and>
      parsed_field line ''flags'' = Some (JStr ''-T4 -F'') \<and>
      parsed_field line ''format'' = Some (JStr ''xml'') \<and>
      parsed_field line ''summary'' =
        Some (JObj [(''address'', JStr ''10.0.0.9''), (''status'', JStr ''up''),
                (''openPorts'',
                 JArr [JObj [(''port'', JStr ''80''), (''service'', JStr ''http''),
                             (''product'', JStr []), (''version'', JStr []),
                             (''extra'', JStr [])]]),
                (''totalOpen'', JNum 1),
                (''vulns'',
                 JArr [JObj [(''port'', JStr ''80''), (''script'', JStr ''http-title''),
                             (''output'', JStr ''Home'')]])])) \<and>
   (\<exists>line. history (snd (run_item ex_env_refused 0 ex_params ex_world)) = [line] \<and>
      parsed_field line ''summary'' = Some JNull \<and>
      parsed_field line ''error'' =
        Some (JObj (rejected (command_line ''nmap'' ''-T4 -F'' ''-oX -'' ''10.0.0.9'')
                      ''Command failed'' [] ''connection refused'')))"
proof -
  have save: "saveHistory ex_params"
    by (simp add: ex_params_def)
  obtain out1 w1 where run1: "run_item ex_env_down 0 ex_params ex_world = (Inr out1, w1)"
    using run_item_written [OF ex_written(2)] by blast
  obtain out2 w2 where run2: "run_item ex_env_refused 0 ex_params ex_world = (Inr out2, w2)"
    using run_item_written [OF ex_written(3)] by blast
  have s1: "snd (summarize ex_env_down ex_params (fst (scan ex_env_down ex_params ex_world))) =
      JObj [(''address'', JStr ''10.0.0.9''), (''status'', JStr ''up''),
                (''openPorts'',
                 JArr [JObj [(''port'', JStr ''80''), (''service'', JStr ''http''),
                             (''product'', JStr []), (''version'', JStr []),
                             (''extra'', JStr [])]]),
                (''totalOpen'', JNum 1),
                (''vulns'',
                 JArr [JObj [(''port'', JStr ''80''), (''script'', JStr ''http-title''),
                             (''output'', JStr ''Home'')]])]"
  proof -
    have made: "makeSummary ex_doc =
      JObj [(''address'', JStr ''10.0.0.9''), (''status'', JStr ''up''),
                (''openPorts'',
                 JArr [JObj [(''port'', JStr ''80''), (''service'', JStr ''http''),
                             (''product'', JStr []), (''version'', JStr []),
                             (''extra'', JStr [])]]),
                (''totalOpen'', JNum 1),
                (''vulns'',
                 JArr [JObj [(''port'', JStr ''80''), (''script'', JStr ''http-title''),
                             (''output'', JStr ''Home'')]])]"
      by (simp add: makeSummary_def ex_doc_summary)
    have "snd (summarize ex_env_down ex_params (fst (scan ex_env_down ex_params ex_world))) =
        makeSummary ex_doc"
      unfolding ex_down_scan
      by (simp add: summarize_def resolved_def get_def ex_params_def ex_env_down_def)
    with made show ?thesis by simp
  qed
  have sr2: "fst (scan ex_env_refused ex_params ex_world) =
      rejected (command_line ''nmap'' ''-T4 -F'' ''-oX -'' ''10.0.0.9'') ''Command failed'' []
        ''connection refused''"
    by (simp add: scan_def runNmap_def Let_def ex_env_refused_def ex_world_def ex_flags
        ex_command_parts downMsg_def rejected_def get_def ci_eq_def)
  have s2: "snd (summarize ex_env_refused ex_params (fst (scan ex_env_refused ex_params ex_world)))
      = JNull"
    by (simp add: sr2 summarize_def rejected_def get_def)
  have e2: "get (fst (scan ex_env_refused ex_params ex_world)) ''error'' = JBool True"
    by (simp add: sr2 rejected_def get_def)
  have clock: "toISOString ex_env_down 0 = ''2025-01-01T00:00:00.000Z''"
    by (simp add: ex_env_down_def)
  have params: "target ex_params = ''10.0.0.9'' \<and> outputFormat ex_params = ''xml''"
    by (simp add: ex_params_def)
  have clean: "no_undefined
      (snd (summarize ex_env_down ex_params (fst (scan ex_env_down ex_params ex_world))))"
    unfolding s1 by simp
  obtain l1 where h1: "history w1 = history ex_world @ [l1]"
    and ts: "parsed_field l1 ''timestamp'' = Some (JStr (toISOString ex_env_down 0))"
    and tg: "parsed_field l1 ''target'' = Some (JStr (target ex_params))"
    and fl: "parsed_field l1 ''flags'' = Some (JStr (flags_of ex_params))"
    and fm: "parsed_field l1 ''format'' = Some (JStr (outputFormat ex_params))"
    and su: "parsed_field l1 ''summary'' =
      Some (snd (summarize ex_env_down ex_params (fst (scan ex_env_down ex_params ex_world))))"
    using history_line_round_trip [OF run1 save ex_trees(2)] clean by blast
  obtain l2 where h2: "history w2 = history ex_world @ [l2]"
    and su2: "parsed_field l2 ''summary'' = Some (json_norm
      (snd (summarize ex_env_refused ex_params (fst (scan ex_env_refused ex_params ex_world)))))"
    and er2: "parsed_field l2 ''error'' =
      Some (JObj (fst (scan ex_env_refused ex_params ex_world)))"
    using history_line_round_trip [OF run2 save ex_trees(3)] e2 by blast
  have first: "history (snd (run_item ex_env_down 0 ex_params ex_world)) = [l1]"
    using h1 run1 by (simp add: ex_world_def)
  have second: "history (snd (run_item ex_env_refused 0 ex_params ex_world)) = [l2]"
    using h2 run2 by (simp add: ex_world_def)
  have "parsed_field l2 ''summary'' = Some JNull"
    using su2 by (simp add: s2)
  then show ?thesis
    using first second ts tg fl fm su er2
    unfolding s1 sr2 clock ex_flags by (simp add: params)
qed

text \<open>
  C7 as stated fails for a summary with an undefined value. The scanner reports an open
  port without \<^verbatim>\<open>portid\<close>: the summary has the property \<^verbatim>\<open>port\<close> with the value
  \<^verbatim>\<open>undefined\<close>, the line leaves it out, and the record read back has no \<^verbatim>\<open>port\<close>.
\<close>

theorem history_summary_not_reproduced:
  "snd (summarize ex_env_noid ex_params (fst (scan ex_env_noid ex_params ex_world))) =
     JObj [(''address'', JStr ''10.0.0.9''), (''status'', JStr ''up''),
           (''openPorts'',
            JArr [JObj [(''port'', JUndefined), (''service'', JStr []), (''product'', JStr []),
                        (''version'', JStr []), (''extra'', JStr [])]]),
           (''totalOpen'', JNum 1), (''vulns'', JArr [])] \<and>
   parsed_field (last (history (snd (run_item ex_env_noid 0 ex_params ex_world)))) ''summary'' =
     Some (JObj [(''address'', JStr ''10.0.0.9''), (''status'', JStr ''up''),
                 (''openPorts'',
                  JArr [JObj [(''service'', JStr []), (''product'', JStr []),
                              (''version'', JStr []), (''extra'', JStr [])]]),
                 (''totalOpen'', JNum 1), (''vulns'', JArr [])]) \<and>
   parsed_field (last (history (snd (run_item ex_env_noid 0 ex_params ex_world)))) ''summary'' \<noteq>
     Some (snd (summarize ex_env_noid ex_params (fst (scan ex_env_noid ex_params ex_world))))"
proof -
  obtain out w' where run: "run_item ex_env_noid 0 ex_params ex_world = (Inr out, w')"
    using run_item_written [OF ex_written(1)] by blast
  have save: "saveHistory ex_params"
    by (simp add: ex_params_def)
  let ?s = "snd (summarize ex_env_noid ex_params (fst (scan ex_env_noid ex_params ex_world)))"
  have s: "?s = JObj [(''address'', JStr ''10.0.0.9''), (''status'', JStr ''up''),
           (''openPorts'',
            JArr [JObj [(''port'', JUndefined), (''service'', JStr []), (''product'', JStr []),
                        (''version'', JStr []), (''extra'', JStr [])]]),
           (''totalOpen'', JNum 1), (''vulns'', JArr [])]"
    using ex_noid_summary by (simp add: ex_noid_scan)
  obtain extra where line: "history w' = history ex_world @
        [JSON_stringify (history_obj (toISOString ex_env_noid 0) ex_params ?s
           (fst (scan ex_env_noid ex_params ex_world))) @ [CHR 0x0A]]"
    and parsed: "JSON_parse (JSON_stringify (history_obj (toISOString ex_env_noid 0) ex_params ?s
           (fst (scan ex_env_noid ex_params ex_world))) @ [CHR 0x0A]) =
        Some (JObj ([(''timestamp'', JStr (toISOString ex_env_noid 0)),
                     (''target'', JStr (target ex_params)),
                     (''flags'', JStr (flags_of ex_params)),
                     (''format'', JStr (outputFormat ex_params)),
                     (''summary'', json_norm ?s)] @ extra))"
    using history_line_parses [OF run save ex_trees(1)] by blast
  have "parsed_field (last (history w')) ''summary'' = Some (json_norm ?s)"
    by (simp add: line parsed_field_def parsed get_Cons)
  then show ?thesis
    using run s by simp
qed


section \<open>The timeout\<close>




end
